theory Spec2Isabelle
  imports Complex_Main
begin

section \<open>Numbers and three-component vectors\<close>

text \<open>
  The engine of \<^verbatim>\<open>src/utils/physics.ts\<close> computes with JavaScript numbers and with the
  \<^verbatim>\<open>Vector3\<close> class of the three.js library. Numbers are modelled as the real numbers:
  rounding, infinities and NaN are outside the model. The only divisions of the source
  whose divisor can be zero are those of \<^verbatim>\<open>snapToGrid\<close> at \<^verbatim>\<open>step = 0\<close>; every other
  division is behind a guard of the source that the model keeps.

  The methods of \<^verbatim>\<open>Vector3\<close> mutate the receiver and return it; the source calls them
  on fresh vectors or clones only, so each method is modelled as a function returning the
  new value.
\<close>

datatype Vector3 = Vector3 (x_v: real) (y_v: real) (z_v: real)

definition subVectors :: "Vector3 \<Rightarrow> Vector3 \<Rightarrow> Vector3" where
  "subVectors a b = Vector3 (x_v a - x_v b) (y_v a - y_v b) (z_v a - z_v b)"

definition add_v :: "Vector3 \<Rightarrow> Vector3 \<Rightarrow> Vector3" where
  "add_v a b = Vector3 (x_v a + x_v b) (y_v a + y_v b) (z_v a + z_v b)"

definition multiplyScalar :: "Vector3 \<Rightarrow> real \<Rightarrow> Vector3" where
  "multiplyScalar v s = Vector3 (x_v v * s) (y_v v * s) (z_v v * s)"

definition divideScalar :: "Vector3 \<Rightarrow> real \<Rightarrow> Vector3" where
  \<comment> \<open>three.js: \<^verbatim>\<open>return this.multiplyScalar(1 / scalar)\<close>\<close>
  "divideScalar v s = multiplyScalar v (1 / s)"

definition length_v :: "Vector3 \<Rightarrow> real" where
  "length_v v = sqrt (x_v v * x_v v + y_v v * y_v v + z_v v * z_v v)"

definition normalize_v :: "Vector3 \<Rightarrow> Vector3" where
  \<comment> \<open>three.js: \<^verbatim>\<open>return this.divideScalar(this.length() || 1)\<close>\<close>
  "normalize_v v = divideScalar v (if length_v v = 0 then 1 else length_v v)"

definition distanceToSquared :: "Vector3 \<Rightarrow> Vector3 \<Rightarrow> real" where
  "distanceToSquared a b =
     (let dx = x_v a - x_v b; dy = y_v a - y_v b; dz = z_v a - z_v b
      in dx * dx + dy * dy + dz * dz)"

definition distanceTo :: "Vector3 \<Rightarrow> Vector3 \<Rightarrow> real" where
  "distanceTo a b = sqrt (distanceToSquared a b)"

definition Math_round :: "real \<Rightarrow> real" where
  \<comment> \<open>\<^verbatim>\<open>Math.round\<close>: the nearest integer, a tie going up\<close>
  "Math_round a = of_int \<lfloor>a + 1 / 2\<rfloor>"

section \<open>The data model of \<^verbatim>\<open>src/types.ts\<close>\<close>

datatype ChargeType = POINT | RING | SPHERE_CONDUCTING | SPHERE_NON_CONDUCTING

text \<open>
  Optional fields are options. \<^verbatim>\<open>if (charge.isFixed)\<close> holds for \<^verbatim>\<open>true\<close> only, and
  \<^verbatim>\<open>c.mass || 1.0\<close> replaces an absent mass and the mass \<^verbatim>\<open>0\<close>.
\<close>

record ChargeObject =
  id_c :: string
  type :: ChargeType
  position :: Vector3
  q :: real
  radius :: real
  draggable :: "bool option"
  mass :: "real option"
  velocity :: "Vector3 option"
  isFixed :: "bool option"

record VectorResult =
  vector :: Vector3
  magnitude :: real

definition truthy :: "bool option \<Rightarrow> bool" where
  "truthy b = (b = Some True)"

definition includes_SPHERE :: "ChargeType \<Rightarrow> bool" where
  \<comment> \<open>\<^verbatim>\<open>target.type.includes('SPHERE')\<close> on the four tags\<close>
  "includes_SPHERE t = (t = SPHERE_CONDUCTING \<or> t = SPHERE_NON_CONDUCTING)"

section \<open>Field and potential of one source\<close>

text \<open>
  The three ring loops of the source compute the position of sample \<open>i\<close> of \<open>SAMPLES\<close>
  by the same four lines, written here once.
\<close>

definition samplePos :: "ChargeObject \<Rightarrow> nat \<Rightarrow> nat \<Rightarrow> Vector3" where
  "samplePos charge SAMPLES i =
     (let theta = (real i / real SAMPLES) * pi * 2;
          dx = cos theta * radius charge;
          dz = sin theta * radius charge
      in Vector3 (x_v (position charge) + dx) (y_v (position charge))
           (z_v (position charge) + dz))"

definition ringFieldStep ::
  "Vector3 \<Rightarrow> ChargeObject \<Rightarrow> real \<Rightarrow> real \<Rightarrow> nat \<Rightarrow> nat \<Rightarrow> Vector3 \<Rightarrow> Vector3" where
  \<comment> \<open>one iteration of the ring loop of \<^verbatim>\<open>getFieldFromObject\<close>, on the accumulator\<close>
  "ringFieldStep p charge k dQ SAMPLES i eField =
     (let rSample = subVectors p (samplePos charge SAMPLES i);
          dR = length_v rSample
      in if dR > 0.1
         then (let dE = (k * dQ) / (dR * dR)
               in add_v eField (multiplyScalar (normalize_v rSample) dE))
         else eField)"

definition getFieldFromObject :: "Vector3 \<Rightarrow> ChargeObject \<Rightarrow> real \<Rightarrow> Vector3" where
  "getFieldFromObject p charge k =
     (let rVec = subVectors p (position charge);
          dist = length_v rVec;
          eField = Vector3 0 0 0
      in if dist < 0.05 then eField
         else (case type charge of
            POINT \<Rightarrow>
              (let magnitude = (k * q charge) / (dist * dist)
               in multiplyScalar (normalize_v rVec) magnitude)
          | SPHERE_CONDUCTING \<Rightarrow>
              (if dist \<ge> radius charge
               then (let magnitude = (k * q charge) / (dist * dist)
                     in multiplyScalar (normalize_v rVec) magnitude)
               else Vector3 0 0 0)
          | SPHERE_NON_CONDUCTING \<Rightarrow>
              (if dist \<ge> radius charge
               then (let magnitude = (k * q charge) / (dist * dist)
                     in multiplyScalar (normalize_v rVec) magnitude)
               else (let magnitude =
                           (k * q charge * dist) / (radius charge * radius charge * radius charge)
                     in multiplyScalar (normalize_v rVec) magnitude))
          | RING \<Rightarrow>
              (let SAMPLES = 40;
                   dQ = q charge / real SAMPLES
               in fold (ringFieldStep p charge k dQ SAMPLES) [0..<SAMPLES] eField)))"

definition calculateElectricField :: "Vector3 \<Rightarrow> ChargeObject list \<Rightarrow> real \<Rightarrow> VectorResult" where
  "calculateElectricField p charges k =
     (let totalE = fold (\<lambda>charge totalE. add_v totalE (getFieldFromObject p charge k))
                     charges (Vector3 0 0 0)
      in \<lparr>vector = totalE, magnitude = length_v totalE\<rparr>)"

definition ringPotentialStep ::
  "Vector3 \<Rightarrow> ChargeObject \<Rightarrow> real \<Rightarrow> real \<Rightarrow> nat \<Rightarrow> nat \<Rightarrow> real \<Rightarrow> real" where
  \<comment> \<open>one iteration of the ring loop of \<^verbatim>\<open>calculatePotential\<close>\<close>
  "ringPotentialStep p charge k dQ SAMPLES i potential =
     (let d = distanceTo p (samplePos charge SAMPLES i)
      in if d > 0.05 then potential + (k * dQ) / d else potential)"

definition potentialStep :: "Vector3 \<Rightarrow> real \<Rightarrow> ChargeObject \<Rightarrow> real \<Rightarrow> real" where
  \<comment> \<open>the callback of \<^verbatim>\<open>charges.forEach\<close> in \<^verbatim>\<open>calculatePotential\<close>, on the variable \<^verbatim>\<open>potential\<close>\<close>
  "potentialStep p k charge potential =
     (let dist = distanceTo p (position charge)
      in if dist < 0.05 then potential
         else (case type charge of
            POINT \<Rightarrow> potential + (k * q charge) / dist
          | SPHERE_CONDUCTING \<Rightarrow>
              (if dist \<ge> radius charge then potential + (k * q charge) / dist
               else potential + (k * q charge) / radius charge)
          | SPHERE_NON_CONDUCTING \<Rightarrow>
              (if dist \<ge> radius charge then potential + (k * q charge) / dist
               else (let term = 3 - (dist * dist) / (radius charge * radius charge)
                     in potential + ((k * q charge) / (2 * radius charge)) * term))
          | RING \<Rightarrow>
              (let SAMPLES = 30;
                   dQ = q charge / real SAMPLES
               in fold (ringPotentialStep p charge k dQ SAMPLES) [0..<SAMPLES] potential)))"

definition calculatePotential :: "Vector3 \<Rightarrow> ChargeObject list \<Rightarrow> real \<Rightarrow> real" where
  "calculatePotential p charges k = fold (potentialStep p k) charges 0"

section \<open>Net force, grid snap and the integrator\<close>

definition calculateNetForce :: "ChargeObject \<Rightarrow> ChargeObject list \<Rightarrow> real \<Rightarrow> VectorResult" where
  "calculateNetForce target allCharges k =
     (let otherCharges = filter (\<lambda>c. id_c c \<noteq> id_c target) allCharges;
          totalForce = Vector3 0 0 0
      in if length otherCharges = 0 then \<lparr>vector = totalForce, magnitude = 0\<rparr>
         else
           (let totalForce =
              (if type target = POINT \<or> includes_SPHERE (type target)
               then (let eField = calculateElectricField (position target) otherCharges k
                     in multiplyScalar (vector eField) (q target))
               else if type target = RING
               then (let SAMPLES = 20;
                         dQ = q target / real SAMPLES
                     in fold (\<lambda>i totalForce.
                               (let eAtSample =
                                      calculateElectricField (samplePos target SAMPLES i) otherCharges k
                                in add_v totalForce (multiplyScalar (vector eAtSample) dQ)))
                          [0..<SAMPLES] totalForce)
               else totalForce)
            in \<lparr>vector = totalForce, magnitude = length_v totalForce\<rparr>))"

definition snapToGrid :: "Vector3 \<Rightarrow> real \<Rightarrow> Vector3" where
  "snapToGrid p step =
     Vector3 (Math_round (x_v p / step) * step)
             (Math_round (y_v p / step) * step)
             (Math_round (z_v p / step) * step)"

text \<open>
  The parameter \<^verbatim>\<open>damping\<close> has the default \<^verbatim>\<open>0.98\<close>: an omitted argument is \<open>None\<close>.
  The first pass builds the list \<^verbatim>\<open>updates\<close> of forces, the second reads it by index.
\<close>

definition integrate :: "Vector3 list \<Rightarrow> real \<Rightarrow> real \<Rightarrow> ChargeObject \<times> nat \<Rightarrow> ChargeObject" where
  \<comment> \<open>the callback \<^verbatim>\<open>(c, i) => ...\<close> of the second \<^verbatim>\<open>charges.map\<close>\<close>
  "integrate updates dt damping ci =
     (let c = fst ci; i = snd ci
      in if truthy (isFixed c) then c
         else
           (let force = updates ! i;
                mass = (case mass c of None \<Rightarrow> 1 | Some m \<Rightarrow> if m = 0 then 1 else m);
                acceleration = divideScalar force mass;
                oldVelocity = (case velocity c of None \<Rightarrow> Vector3 0 0 0 | Some v \<Rightarrow> v);
                newVelocity = add_v oldVelocity (multiplyScalar acceleration dt);
                newVelocity = multiplyScalar newVelocity damping;
                newPosition = add_v (position c) (multiplyScalar newVelocity dt)
            in c\<lparr>velocity := Some newVelocity, position := newPosition\<rparr>))"

definition updateChargeDynamics ::
  "ChargeObject list \<Rightarrow> real \<Rightarrow> real \<Rightarrow> real option \<Rightarrow> ChargeObject list" where
  "updateChargeDynamics charges dt k damping_opt =
     (let damping = (case damping_opt of None \<Rightarrow> 0.98 | Some d \<Rightarrow> d);
          updates = map (\<lambda>charge.
                      if truthy (isFixed charge) then Vector3 0 0 0
                      else vector (calculateNetForce charge charges k)) charges
      in map (integrate updates dt damping) (zip charges [0..<length charges]))"

section \<open>Auxiliary definitions for the statements\<close>

text \<open>
  Vectors add componentwise (\<^verbatim>\<open>Vector3.add\<close>) with the zero vector as unit, so sums over
  lists and index ranges are available for them.
\<close>

instantiation Vector3 :: comm_monoid_add
begin

definition zero_Vector3 :: Vector3 where
  "zero_Vector3 = Vector3 0 0 0"

definition plus_Vector3 :: "Vector3 \<Rightarrow> Vector3 \<Rightarrow> Vector3" where
  "plus_Vector3 a b = add_v a b"

instance
  by standard (simp_all add: zero_Vector3_def plus_Vector3_def add_v_def Vector3.expand)

end

text \<open>
  Sample \<open>i\<close> of a ring cut into \<open>SAMPLES\<close> parts, seen as a source of its own: a point
  charge \<open>q / SAMPLES\<close> at the sample position.
\<close>

definition sampleCharge :: "ChargeObject \<Rightarrow> nat \<Rightarrow> nat \<Rightarrow> ChargeObject" where
  "sampleCharge charge SAMPLES i =
     charge\<lparr>type := POINT, position := samplePos charge SAMPLES i,
            q := q charge / real SAMPLES\<rparr>"


text \<open>Sources used as concrete inputs.\<close>

definition sphere_example :: ChargeObject where
  "sphere_example = \<lparr>id_c = ''s1'', type = SPHERE_CONDUCTING, position = Vector3 0 0 0, q = 5,
     radius = 1, draggable = None, mass = None, velocity = None, isFixed = None\<rparr>"

definition ring_example :: ChargeObject where
  "ring_example = \<lparr>id_c = ''r1'', type = RING, position = Vector3 0 0 0, q = 40,
     radius = 1, draggable = None, mass = None, velocity = None, isFixed = None\<rparr>"

definition fixed_example :: ChargeObject where
  "fixed_example = \<lparr>id_c = ''c1'', type = POINT, position = Vector3 0 0 0, q = 1,
     radius = 1 / 5, draggable = None, mass = Some 1, velocity = None, isFixed = Some True\<rparr>"

definition free_example :: "real option \<Rightarrow> ChargeObject" where
  "free_example m = \<lparr>id_c = ''c2'', type = POINT, position = Vector3 1 0 0, q = 1,
     radius = 1 / 5, draggable = None, mass = m, velocity = None, isFixed = None\<rparr>"

section \<open>Vector facts\<close>

lemma length_v_nonneg: "0 \<le> length_v v"
  by (simp add: length_v_def)

lemma length_v_zero: "length_v (Vector3 0 0 0) = 0"
  by (simp add: length_v_def)

lemma length_v_multiplyScalar: "length_v (multiplyScalar v s) = \<bar>s\<bar> * length_v v"
proof -
  have "x_v v * s * (x_v v * s) + y_v v * s * (y_v v * s) + z_v v * s * (z_v v * s)
      = s\<^sup>2 * (x_v v * x_v v + y_v v * y_v v + z_v v * z_v v)"
    by (simp add: power2_eq_square algebra_simps)
  then show ?thesis
    by (simp add: length_v_def multiplyScalar_def real_sqrt_mult)
qed

lemma normalize_v_eq: "length_v v \<noteq> 0 \<Longrightarrow> normalize_v v = divideScalar v (length_v v)"
  by (simp add: normalize_v_def)

lemma length_v_unit: "length_v v \<noteq> 0 \<Longrightarrow> length_v (divideScalar v (length_v v)) = 1"
  using length_v_nonneg [of v] by (simp add: divideScalar_def length_v_multiplyScalar)

lemma distanceTo_length_v: "distanceTo a b = length_v (subVectors a b)"
  by (simp add: distanceTo_def distanceToSquared_def length_v_def subVectors_def Let_def)

lemma length_v_axis_x: "length_v (Vector3 a 0 0) = \<bar>a\<bar>"
  by (simp add: length_v_def)

lemma length_v_axis_y: "length_v (Vector3 0 a 0) = \<bar>a\<bar>"
  by (simp add: length_v_def)

lemma field_point_law:
  assumes "d = length_v rVec" "d \<noteq> 0"
  shows "multiplyScalar (normalize_v rVec) m = multiplyScalar (divideScalar rVec d) m"
    and "length_v (multiplyScalar (normalize_v rVec) m) = \<bar>m\<bar>"
  using assms length_v_unit [of rVec]
  by (simp_all add: normalize_v_eq length_v_multiplyScalar)

section \<open>Loops as sums\<close>

lemma add_v_plus: "add_v a b = a + b"
  by (simp add: plus_Vector3_def)

lemma x_v_plus [simp]: "x_v (a + b) = x_v a + x_v b"
  and y_v_plus [simp]: "y_v (a + b) = y_v a + y_v b"
  and z_v_plus [simp]: "z_v (a + b) = z_v a + z_v b"
  by (simp_all add: plus_Vector3_def add_v_def)

lemma x_v_zero [simp]: "x_v 0 = 0"
  and y_v_zero [simp]: "y_v 0 = 0"
  and z_v_zero [simp]: "z_v 0 = 0"
  by (simp_all add: zero_Vector3_def)

lemma x_v_sum: "x_v (sum f A) = (\<Sum>i\<in>A. x_v (f i))"
  by (induction A rule: infinite_finite_induct) simp_all

lemma y_v_sum: "y_v (sum f A) = (\<Sum>i\<in>A. y_v (f i))"
  by (induction A rule: infinite_finite_induct) simp_all

lemma z_v_sum: "z_v (sum f A) = (\<Sum>i\<in>A. z_v (f i))"
  by (induction A rule: infinite_finite_induct) simp_all

lemma fold_upt_sum:
  fixes f :: "nat \<Rightarrow> 'a \<Rightarrow> 'a::comm_monoid_add"
  assumes "\<And>i acc. i < n \<Longrightarrow> f i acc = acc + g i"
  shows "fold f [0..<n] acc = acc + (\<Sum>i<n. g i)"
  using assms
proof (induction n)
  case 0
  then show ?case by simp
next
  case (Suc n)
  then show ?case by (simp add: add.assoc)
qed

lemma fold_list_sum:
  fixes f :: "'b \<Rightarrow> 'a \<Rightarrow> 'a::comm_monoid_add"
  assumes "\<And>c acc. c \<in> set cs \<Longrightarrow> f c acc = acc + g c"
  shows "fold f cs acc = acc + sum_list (map g cs)"
  using assms
proof (induction cs arbitrary: acc)
  case Nil
  then show ?case by simp
next
  case (Cons c cs)
  then show ?case by (simp add: add.assoc)
qed

lemma ringFieldStep_plus:
  "ringFieldStep p charge k dQ SAMPLES i eField =
     eField + (if 0.1 < length_v (subVectors p (samplePos charge SAMPLES i))
               then multiplyScalar (normalize_v (subVectors p (samplePos charge SAMPLES i)))
                      ((k * dQ) / (length_v (subVectors p (samplePos charge SAMPLES i))
                                   * length_v (subVectors p (samplePos charge SAMPLES i))))
               else 0)"
  by (simp add: ringFieldStep_def Let_def add_v_plus)

lemma ringPotentialStep_plus:
  "ringPotentialStep p charge k dQ SAMPLES i potential =
     potential + (if 0.05 < distanceTo p (samplePos charge SAMPLES i)
                  then (k * dQ) / distanceTo p (samplePos charge SAMPLES i) else 0)"
  by (simp add: ringPotentialStep_def Let_def)

lemma ring_potential_fold:
  "fold (ringPotentialStep p c k dQ n) [0..<n] a =
     a + (\<Sum>i<n. if 0.05 < distanceTo p (samplePos c n i)
                 then (k * dQ) / distanceTo p (samplePos c n i) else 0)"
  by (rule fold_upt_sum) (rule ringPotentialStep_plus)

lemma ring_field_fold:
  "fold (ringFieldStep p c k dQ n) [0..<n] a =
     a + (\<Sum>i<n. if 0.1 < length_v (subVectors p (samplePos c n i))
                 then multiplyScalar (normalize_v (subVectors p (samplePos c n i)))
                        ((k * dQ) / (length_v (subVectors p (samplePos c n i))
                                     * length_v (subVectors p (samplePos c n i))))
                 else 0)"
  by (rule fold_upt_sum) (rule ringFieldStep_plus)

lemma potentialStep_plus: "potentialStep p k c pot = pot + potentialStep p k c 0"
  by (simp add: potentialStep_def Let_def ring_potential_fold split: ChargeType.split)

lemma getFieldFromObject_ring:
  assumes "type c = RING" and "0.05 \<le> length_v (subVectors p (position c))"
  shows "getFieldFromObject p c k =
     (\<Sum>i<40. if 0.1 < length_v (subVectors p (samplePos c 40 i))
              then multiplyScalar (normalize_v (subVectors p (samplePos c 40 i)))
                     ((k * (q c / 40)) / (length_v (subVectors p (samplePos c 40 i))
                                         * length_v (subVectors p (samplePos c 40 i))))
              else 0)"
proof -
  have "getFieldFromObject p c k = fold (ringFieldStep p c k (q c / 40) 40) [0..<40] 0"
    using assms by (simp add: getFieldFromObject_def Let_def zero_Vector3_def)
  then show ?thesis
    by (simp only: ring_field_fold add_0)
qed

lemma potential_ring:
  assumes "type c = RING" and "0.05 \<le> length_v (subVectors p (position c))"
  shows "potentialStep p k c 0 =
     (\<Sum>i<30. if 0.05 < distanceTo p (samplePos c 30 i)
              then (k * (q c / 30)) / distanceTo p (samplePos c 30 i) else 0)"
proof -
  have "potentialStep p k c 0 = fold (ringPotentialStep p c k (q c / 30) 30) [0..<30] 0"
    using assms by (simp add: potentialStep_def Let_def distanceTo_length_v)
  then show ?thesis
    by (simp only: ring_potential_fold add_0)
qed

section \<open>Concrete inputs\<close>

lemma free_example_force:
  "vector (calculateNetForce (free_example m) [fixed_example, free_example m] 1) = Vector3 1 0 0"
  by (simp add: calculateNetForce_def calculateElectricField_def getFieldFromObject_def
      fixed_example_def free_example_def includes_SPHERE_def Let_def subVectors_def
      length_v_axis_x normalize_v_def divideScalar_def multiplyScalar_def add_v_def)

lemma examples_fixed:
  "truthy (isFixed fixed_example)" "\<not> truthy (isFixed (free_example m))"
  by (simp_all add: truthy_def fixed_example_def free_example_def)

section \<open>Singularity guards\<close>

lemma sampleCharge_field:
  assumes "0.1 < length_v (subVectors p (samplePos c n i))"
  shows "getFieldFromObject p (sampleCharge c n i) k
       = multiplyScalar (normalize_v (subVectors p (samplePos c n i)))
           ((k * (q c / real n)) / (length_v (subVectors p (samplePos c n i))
                                    * length_v (subVectors p (samplePos c n i))))"
  using assms by (simp add: getFieldFromObject_def sampleCharge_def Let_def)

lemma sampleCharge_potential:
  assumes "0.05 < distanceTo p (samplePos c n i)"
  shows "calculatePotential p [sampleCharge c n i] k
       = (k * (q c / real n)) / distanceTo p (samplePos c n i)"
  using assms by (simp add: calculatePotential_def potentialStep_def sampleCharge_def Let_def)

lemma calculatePotential_single: "calculatePotential p [c] k = potentialStep p k c 0"
  by (simp add: calculatePotential_def)

text \<open>
  Claim C1, first part as stated, the part on ring samples as the code has it. A source
  whose position is nearer than \<open>0.05\<close> to the probe point contributes the zero vector to
  the field and nothing to the potential, whatever its type. A ring farther than that is
  the sum of its samples, where a sample of the field loop (40 samples) contributes the
  field of the point charge \<open>q / 40\<close> at the sample position exactly when its distance to
  the probe point exceeds \<open>0.1\<close>, and a sample of the potential loop (30 samples)
  contributes the potential of the point charge \<open>q / 30\<close> exactly when its distance
  exceeds \<open>0.05\<close>; every other sample contributes zero.
\<close>

theorem singularity_guard:
  "(length_v (subVectors p (position c)) < 0.05 \<longrightarrow>
      getFieldFromObject p c k = Vector3 0 0 0
    \<and> potentialStep p k c pot = pot
    \<and> calculatePotential p [c] k = 0)
   \<and> ringFieldStep p c k (q c / real n) n i eField
       = eField + (if 0.1 < length_v (subVectors p (samplePos c n i))
                   then getFieldFromObject p (sampleCharge c n i) k else 0)
   \<and> ringPotentialStep p c k (q c / real n) n i pot
       = pot + (if 0.05 < distanceTo p (samplePos c n i)
                then calculatePotential p [sampleCharge c n i] k else 0)
   \<and> (type c = RING \<and> 0.05 \<le> length_v (subVectors p (position c)) \<longrightarrow>
        getFieldFromObject p c k
          = (\<Sum>i<40. if 0.1 < length_v (subVectors p (samplePos c 40 i))
                     then getFieldFromObject p (sampleCharge c 40 i) k else 0)
      \<and> calculatePotential p [c] k
          = (\<Sum>i<30. if 0.05 < distanceTo p (samplePos c 30 i)
                     then calculatePotential p [sampleCharge c 30 i] k else 0))"
proof -
  have near: "getFieldFromObject p c k = Vector3 0 0 0 \<and> potentialStep p k c pot = pot
      \<and> calculatePotential p [c] k = 0"
    if "length_v (subVectors p (position c)) < 0.05"
    using that
    by (simp add: getFieldFromObject_def calculatePotential_def potentialStep_def
        distanceTo_length_v Let_def)
  have fstep: "ringFieldStep p c k (q c / real n) n i eField
       = eField + (if 0.1 < length_v (subVectors p (samplePos c n i))
                   then getFieldFromObject p (sampleCharge c n i) k else 0)"
    by (simp add: ringFieldStep_plus sampleCharge_field)
  have pstep: "ringPotentialStep p c k (q c / real n) n i pot
       = pot + (if 0.05 < distanceTo p (samplePos c n i)
                then calculatePotential p [sampleCharge c n i] k else 0)"
    by (simp add: ringPotentialStep_plus sampleCharge_potential)
  have ring: "getFieldFromObject p c k
          = (\<Sum>i<40. if 0.1 < length_v (subVectors p (samplePos c 40 i))
                     then getFieldFromObject p (sampleCharge c 40 i) k else 0)
      \<and> calculatePotential p [c] k
          = (\<Sum>i<30. if 0.05 < distanceTo p (samplePos c 30 i)
                     then calculatePotential p [sampleCharge c 30 i] k else 0)"
    if "type c = RING" "0.05 \<le> length_v (subVectors p (position c))"
  proof -
    have "getFieldFromObject p c k
          = (\<Sum>i<40. if 0.1 < length_v (subVectors p (samplePos c 40 i))
                     then getFieldFromObject p (sampleCharge c 40 i) k else 0)"
      unfolding getFieldFromObject_ring [OF that]
      by (rule sum.cong) (simp_all add: sampleCharge_field)
    moreover have "calculatePotential p [c] k = potentialStep p k c 0"
      by (rule calculatePotential_single)
    moreover have "potentialStep p k c 0
          = (\<Sum>i<30. if 0.05 < distanceTo p (samplePos c 30 i)
                     then calculatePotential p [sampleCharge c 30 i] k else 0)"
      unfolding potential_ring [OF that]
      by (rule sum.cong) (simp_all add: sampleCharge_potential)
    ultimately show ?thesis by simp
  qed
  show ?thesis
    using near fstep pstep ring by blast
qed

theorem singularity_guard_witness:
  "length_v (subVectors (Vector3 (1 / 100) 0 0) (position sphere_example)) < 0.05
   \<and> getFieldFromObject (Vector3 (1 / 100) 0 0) sphere_example 1 = Vector3 0 0 0
   \<and> calculatePotential (Vector3 (1 / 100) 0 0) [sphere_example] 1 = 0
   \<and> type ring_example = RING
   \<and> 0.05 \<le> length_v (subVectors (Vector3 (27 / 25) 0 0) (position ring_example))
   \<and> getFieldFromObject (Vector3 (27 / 25) 0 0) ring_example 1
       = (\<Sum>i<40. if 0.1 < length_v (subVectors (Vector3 (27 / 25) 0 0) (samplePos ring_example 40 i))
                  then getFieldFromObject (Vector3 (27 / 25) 0 0) (sampleCharge ring_example 40 i) 1
                  else 0)"
proof -
  have a: "length_v (subVectors (Vector3 (1 / 100) 0 0) (position sphere_example)) < 0.05"
    by (simp add: sphere_example_def subVectors_def length_v_axis_x)
  have b: "type ring_example = RING
      \<and> 0.05 \<le> length_v (subVectors (Vector3 (27 / 25) 0 0) (position ring_example))"
    by (simp add: ring_example_def subVectors_def length_v_axis_x)
  show ?thesis
    using a b
      singularity_guard [of "Vector3 (1 / 100) 0 0" sphere_example 1 0 40 0 0, THEN conjunct1]
      singularity_guard [of "Vector3 (27 / 25) 0 0" ring_example 1 0 40 0 0,
        THEN conjunct2, THEN conjunct2, THEN conjunct2]
    by blast
qed

theorem ring_sample_guard_counterexample:
  "samplePos ring_example 40 0 = Vector3 1 0 0
   \<and> length_v (subVectors (Vector3 (27 / 25) 0 0) (samplePos ring_example 40 0)) = 2 / 25
   \<and> (0.05 :: real) \<le> 2 / 25
   \<and> ringFieldStep (Vector3 (27 / 25) 0 0) ring_example 1 (q ring_example / 40) 40 0 (Vector3 0 0 0)
       = Vector3 0 0 0
   \<and> getFieldFromObject (Vector3 (27 / 25) 0 0) (sampleCharge ring_example 40 0) 1
       = Vector3 (625 / 4) 0 0
   \<and> ringFieldStep (Vector3 (27 / 25) 0 0) ring_example 1 (q ring_example / 40) 40 0 (Vector3 0 0 0)
       \<noteq> getFieldFromObject (Vector3 (27 / 25) 0 0) (sampleCharge ring_example 40 0) 1"
proof -
  have s: "samplePos ring_example 40 0 = Vector3 1 0 0"
    by (simp add: samplePos_def ring_example_def)
  have r: "subVectors (Vector3 (27 / 25) 0 0) (Vector3 1 0 0) = Vector3 (2 / 25) 0 0"
    by (simp add: subVectors_def)
  have l: "length_v (Vector3 (2 / 25) 0 0) = 2 / 25"
    by (simp add: length_v_axis_x)
  have qv: "q ring_example = 40"
    by (simp add: ring_example_def)
  have st: "ringFieldStep (Vector3 (27 / 25) 0 0) ring_example 1 (q ring_example / 40) 40 0
        (Vector3 0 0 0) = Vector3 0 0 0"
    by (simp add: ringFieldStep_def s r l)
  have pt: "getFieldFromObject (Vector3 (27 / 25) 0 0) (sampleCharge ring_example 40 0) 1
       = Vector3 (625 / 4) 0 0"
    by (simp add: getFieldFromObject_def sampleCharge_def s r l normalize_v_def
        divideScalar_def multiplyScalar_def qv)
  show ?thesis
    by (simp add: s r l st pt)
qed

section \<open>Conducting sphere\<close>

text \<open>
  Claim C3. For a source of type \<^verbatim>\<open>SPHERE_CONDUCTING\<close> with radius \<open>R\<close> and charge \<open>q\<close>,
  at distance \<open>d\<close> from its centre: for \<open>0.05 \<le> d < R\<close> the field is the zero vector and
  the potential is \<open>k q / R\<close>; for \<open>d \<ge> R\<close> field and potential are those of the same
  source taken as a \<^verbatim>\<open>POINT\<close>, which for \<open>d \<ge> 0.05\<close> are \<open>k q / d\<^sup>2\<close> times the outward
  unit vector \<open>rVec / d\<close> and \<open>k q / d\<close>. With \<open>q = 5\<close>, \<open>R = 1\<close>, \<open>k = 1\<close> the magnitude
  of the field is \<open>0\<close> at \<open>d = 0.5\<close>, and at \<open>d = 2\<close> the field is \<open>1.25\<close> times the outward
  unit vector.
\<close>

theorem conducting_sphere_law:
  assumes "type c = SPHERE_CONDUCTING"
    and "rVec = subVectors p (position c)" and "d = length_v rVec"
  shows "(0.05 \<le> d \<and> d < radius c \<longrightarrow>
            getFieldFromObject p c k = Vector3 0 0 0
          \<and> calculatePotential p [c] k = k * q c / radius c)
       \<and> (radius c \<le> d \<longrightarrow>
            getFieldFromObject p c k = getFieldFromObject p (c\<lparr>type := POINT\<rparr>) k
          \<and> calculatePotential p [c] k = calculatePotential p [c\<lparr>type := POINT\<rparr>] k)
       \<and> (0.05 \<le> d \<and> radius c \<le> d \<longrightarrow>
            getFieldFromObject p c k = multiplyScalar (divideScalar rVec d) (k * q c / d\<^sup>2)
          \<and> length_v (divideScalar rVec d) = 1
          \<and> length_v (getFieldFromObject p c k) = \<bar>k * q c\<bar> / d\<^sup>2
          \<and> calculatePotential p [c] k = k * q c / d)
       \<and> (q c = 5 \<and> radius c = 1 \<and> k = 1 \<and> d = 0.5 \<longrightarrow>
            length_v (getFieldFromObject p c k) = 0)
       \<and> (q c = 5 \<and> radius c = 1 \<and> k = 1 \<and> d = 2 \<longrightarrow>
            getFieldFromObject p c k = multiplyScalar (divideScalar rVec d) 1.25
          \<and> length_v (getFieldFromObject p c k) = 1.25)"
proof -
  have inside: "getFieldFromObject p c k = Vector3 0 0 0
      \<and> calculatePotential p [c] k = k * q c / radius c" if "0.05 \<le> d" "d < radius c"
    using that assms
    by (simp add: getFieldFromObject_def calculatePotential_def potentialStep_def
        distanceTo_length_v Let_def)
  have same: "getFieldFromObject p c k = getFieldFromObject p (c\<lparr>type := POINT\<rparr>) k
      \<and> calculatePotential p [c] k = calculatePotential p [c\<lparr>type := POINT\<rparr>] k"
    if "radius c \<le> d"
    using that assms
    by (simp add: getFieldFromObject_def calculatePotential_def potentialStep_def
        distanceTo_length_v Let_def)
  have outside: "getFieldFromObject p c k = multiplyScalar (divideScalar rVec d) (k * q c / d\<^sup>2)
      \<and> length_v (divideScalar rVec d) = 1
      \<and> length_v (getFieldFromObject p c k) = \<bar>k * q c\<bar> / d\<^sup>2
      \<and> calculatePotential p [c] k = k * q c / d" if "0.05 \<le> d" "radius c \<le> d"
  proof -
    from that have "d \<noteq> 0" by simp
    then show ?thesis
      using that assms field_point_law [of d rVec "k * q c / (d * d)"] length_v_unit [of rVec]
      by (simp add: getFieldFromObject_def calculatePotential_def potentialStep_def
          distanceTo_length_v Let_def power2_eq_square)
  qed
  show ?thesis
    using inside same outside by (auto simp add: length_v_zero)
qed

theorem conducting_sphere_law_witness:
  "type sphere_example = SPHERE_CONDUCTING
   \<and> length_v (subVectors (Vector3 2 0 0) (position sphere_example)) = 2
   \<and> getFieldFromObject (Vector3 2 0 0) sphere_example 1 = Vector3 (5 / 4) 0 0
   \<and> calculatePotential (Vector3 2 0 0) [sphere_example] 1 = 5 / 2
   \<and> length_v (subVectors (Vector3 0 (1 / 2) 0) (position sphere_example)) = 1 / 2
   \<and> getFieldFromObject (Vector3 0 (1 / 2) 0) sphere_example 1 = Vector3 0 0 0
   \<and> calculatePotential (Vector3 0 (1 / 2) 0) [sphere_example] 1 = 5"
proof -
  have a: "subVectors (Vector3 2 0 0) (position sphere_example) = Vector3 2 0 0"
    and b: "subVectors (Vector3 0 (1 / 2) 0) (position sphere_example) = Vector3 0 (1 / 2) 0"
    by (simp_all add: sphere_example_def subVectors_def)
  have t: "type sphere_example = SPHERE_CONDUCTING" "q sphere_example = 5" "radius sphere_example = 1"
    by (simp_all add: sphere_example_def)
  have la: "(2::real) = length_v (Vector3 2 0 0)" and lb: "(1 / 2 ::real) = length_v (Vector3 0 (1 / 2) 0)"
    by (simp_all add: length_v_axis_x length_v_axis_y)
  have r1: "getFieldFromObject (Vector3 2 0 0) sphere_example 1
        = multiplyScalar (divideScalar (Vector3 2 0 0) 2) (5 / 2\<^sup>2)
      \<and> calculatePotential (Vector3 2 0 0) [sphere_example] 1 = 5 / 2"
    using conducting_sphere_law [OF t(1) a [symmetric] la, of 1, THEN conjunct2, THEN conjunct2, THEN conjunct1]
    by (simp add: t)
  have r2: "getFieldFromObject (Vector3 0 (1 / 2) 0) sphere_example 1 = Vector3 0 0 0
      \<and> calculatePotential (Vector3 0 (1 / 2) 0) [sphere_example] 1 = 5"
    using conducting_sphere_law [OF t(1) b [symmetric] lb, of 1, THEN conjunct1]
    by (simp add: t)
  show ?thesis
    using r1 r2
    by (simp add: t a b length_v_axis_x length_v_axis_y multiplyScalar_def divideScalar_def
        power2_eq_square)
qed

section \<open>Continuity along a ray\<close>

lemma radial_probe:
  assumes "length_v u = 1" and "0 < t"
  shows "subVectors (add_v pos (multiplyScalar u t)) pos = multiplyScalar u t"
    and "length_v (multiplyScalar u t) = t"
    and "normalize_v (multiplyScalar u t) = u"
proof -
  show "subVectors (add_v pos (multiplyScalar u t)) pos = multiplyScalar u t"
    by (simp add: subVectors_def add_v_def multiplyScalar_def)
  show l: "length_v (multiplyScalar u t) = t"
    using assms by (simp add: length_v_multiplyScalar)
  have "normalize_v (multiplyScalar u t) = divideScalar (multiplyScalar u t) t"
    using assms by (simp add: normalize_v_def l)
  also have "\<dots> = u"
    using assms by (simp add: divideScalar_def multiplyScalar_def Vector3.expand)
  finally show "normalize_v (multiplyScalar u t) = u" .
qed

lemma radial_field:
  assumes "type c = SPHERE_NON_CONDUCTING" and "length_v u = 1" and "0.05 \<le> t"
  shows "getFieldFromObject (add_v (position c) (multiplyScalar u t)) c k
       = multiplyScalar u (if t \<le> radius c
                           then k * q c * t / (radius c * radius c * radius c)
                           else k * q c / (t * t))"
proof -
  from assms(3) have t: "0 < t" by simp
  have "radius c \<noteq> 0" if "t = radius c"
    using that t by simp
  then have "k * q c / (t * t) = k * q c * t / (radius c * radius c * radius c)" if "t = radius c"
    using that by simp
  then show ?thesis
    using assms radial_probe [OF assms(2) t]
    by (auto simp add: getFieldFromObject_def Let_def)
qed

lemma profile_cont:
  fixes A R :: real
  assumes "0 < R"
  shows "isCont (\<lambda>t. if t \<le> R then A * t / (R * R * R) else A / (t * t)) R"
proof (rule isCont_If_ge)
  show "continuous (at_left R) (\<lambda>t. A * t / (R * R * R))"
    by (intro continuous_intros) (use assms in simp)
  have "isCont (\<lambda>t. A / (t * t)) R"
    by (intro continuous_intros) (use assms in simp)
  then have "((\<lambda>t. A / (t * t)) \<longlongrightarrow> A / (R * R)) (at R)"
    by (simp add: isCont_def)
  moreover have "A / (R * R) = A * R / (R * R * R)"
    using assms by simp
  ultimately have "((\<lambda>t. A / (t * t)) \<longlongrightarrow> A * R / (R * R * R)) (at R)"
    by simp
  then show "((\<lambda>t. A / (t * t)) \<longlongrightarrow> A * R / (R * R * R)) (at_right R)"
    by (rule filterlim_mono) (simp_all add: at_le)
qed

lemma radial_field_cont:
  assumes "type c = SPHERE_NON_CONDUCTING" and "length_v u = 1" and "0.05 < radius c"
    and that: "sel = x_v \<or> sel = y_v \<or> sel = z_v"
  shows "isCont (\<lambda>t. sel (getFieldFromObject (add_v (position c) (multiplyScalar u t)) c k))
           (radius c)"
proof -
  let ?g = "\<lambda>t. if t \<le> radius c then k * q c * t / (radius c * radius c * radius c)
                  else k * q c / (t * t)"
  from assms(3) have R: "0 < radius c" by simp
  have "isCont (\<lambda>t. sel u * ?g t) (radius c)"
    by (intro continuous_intros profile_cont [OF R])
  moreover have "eventually (\<lambda>t. sel (getFieldFromObject
        (add_v (position c) (multiplyScalar u t)) c k) = sel u * ?g t) (nhds (radius c))"
  proof -
    have "open {0.05 :: real <..}" by simp
    moreover have "radius c \<in> {0.05 <..}" using assms(3) by simp
    moreover have "\<forall>t \<in> {0.05 <..}. sel (getFieldFromObject
        (add_v (position c) (multiplyScalar u t)) c k) = sel u * ?g t"
    proof
      fix t :: real
      assume "t \<in> {0.05 <..}"
      then have "0.05 \<le> t" by simp
      from radial_field [OF assms(1,2) this]
      have eq: "getFieldFromObject (add_v (position c) (multiplyScalar u t)) c k
          = multiplyScalar u (?g t)" .
      show "sel (getFieldFromObject (add_v (position c) (multiplyScalar u t)) c k)
          = sel u * ?g t"
        unfolding eq using that by (auto simp add: multiplyScalar_def)
    qed
    ultimately show ?thesis
      unfolding eventually_nhds by blast
  qed
  ultimately show ?thesis
    by (simp add: isCont_cong)
qed

section \<open>Uniformly charged sphere\<close>

text \<open>
  Claim C4. For a source of type \<^verbatim>\<open>SPHERE_NON_CONDUCTING\<close> with radius \<open>R\<close> and charge
  \<open>q\<close>, at distance \<open>d\<close> from its centre: for \<open>0.05 \<le> d < R\<close> the field is \<open>k q d / R\<^sup>3\<close>
  times the unit vector \<open>rVec / d\<close> and the potential is \<open>(k q / 2R) (3 - d\<^sup>2 / R\<^sup>2)\<close>; for
  \<open>d \<ge> R\<close> field and potential are those of the same source taken as a \<^verbatim>\<open>POINT\<close>; on the
  boundary \<open>d = R\<close> the value returned is also the value of the interior formula, so the
  two formulas meet there; and when \<open>R > 0.05\<close>, along every ray from the centre (probe
  point \<open>position + t u\<close> for a unit vector \<open>u\<close>) each component of the field is a
  continuous function of \<open>t\<close> at \<open>t = R\<close>. With \<open>q = 5\<close>, \<open>R = 1\<close>, \<open>k = 1\<close> the
  magnitude is \<open>2.5\<close> at \<open>d = 0.5\<close> and \<open>5\<close> at \<open>d = 1\<close>.
\<close>

theorem non_conducting_sphere_law:
  assumes "type c = SPHERE_NON_CONDUCTING"
    and "rVec = subVectors p (position c)" and "d = length_v rVec"
  shows "(0.05 \<le> d \<and> d < radius c \<longrightarrow>
            getFieldFromObject p c k
              = multiplyScalar (divideScalar rVec d) (k * q c * d / (radius c)^3)
          \<and> length_v (divideScalar rVec d) = 1
          \<and> length_v (getFieldFromObject p c k) = \<bar>k * q c\<bar> * d / (radius c)^3
          \<and> calculatePotential p [c] k
              = (k * q c / (2 * radius c)) * (3 - d\<^sup>2 / (radius c)\<^sup>2))
       \<and> (radius c \<le> d \<longrightarrow>
            getFieldFromObject p c k = getFieldFromObject p (c\<lparr>type := POINT\<rparr>) k
          \<and> calculatePotential p [c] k = calculatePotential p [c\<lparr>type := POINT\<rparr>] k)
       \<and> (0.05 \<le> d \<and> radius c \<le> d \<longrightarrow>
            getFieldFromObject p c k = multiplyScalar (divideScalar rVec d) (k * q c / d\<^sup>2)
          \<and> length_v (getFieldFromObject p c k) = \<bar>k * q c\<bar> / d\<^sup>2
          \<and> calculatePotential p [c] k = k * q c / d)
       \<and> (0.05 \<le> d \<and> d = radius c \<longrightarrow>
            getFieldFromObject p c k
              = multiplyScalar (divideScalar rVec d) (k * q c * d / (radius c)^3))
       \<and> (0.05 < radius c \<and> length_v u = 1 \<longrightarrow>
            isCont (\<lambda>t. x_v (getFieldFromObject (add_v (position c) (multiplyScalar u t)) c k))
              (radius c)
          \<and> isCont (\<lambda>t. y_v (getFieldFromObject (add_v (position c) (multiplyScalar u t)) c k))
              (radius c)
          \<and> isCont (\<lambda>t. z_v (getFieldFromObject (add_v (position c) (multiplyScalar u t)) c k))
              (radius c))
       \<and> (q c = 5 \<and> radius c = 1 \<and> k = 1 \<and> d = 0.5 \<longrightarrow>
            length_v (getFieldFromObject p c k) = 2.5)
       \<and> (q c = 5 \<and> radius c = 1 \<and> k = 1 \<and> d = 1 \<longrightarrow>
            length_v (getFieldFromObject p c k) = 5)"
proof -
  have inside: "getFieldFromObject p c k
        = multiplyScalar (divideScalar rVec d) (k * q c * d / (radius c)^3)
      \<and> length_v (divideScalar rVec d) = 1
      \<and> length_v (getFieldFromObject p c k) = \<bar>k * q c\<bar> * d / (radius c)^3
      \<and> calculatePotential p [c] k
        = (k * q c / (2 * radius c)) * (3 - d\<^sup>2 / (radius c)\<^sup>2)"
    if "0.05 \<le> d" "d < radius c"
  proof -
    from that have "d \<noteq> 0" "0 < d" "0 < radius c" by simp_all
    then have "\<bar>k * q c * d / (radius c)^3\<bar> = \<bar>k * q c\<bar> * d / (radius c)^3"
      by (simp add: abs_mult)
    then show ?thesis
      using that assms \<open>d \<noteq> 0\<close> length_v_unit [of rVec]
        field_point_law [of d rVec "k * q c * d / (radius c * radius c * radius c)"]
      by (simp add: getFieldFromObject_def calculatePotential_def potentialStep_def
          distanceTo_length_v Let_def power2_eq_square power3_eq_cube)
  qed
  have same: "getFieldFromObject p c k = getFieldFromObject p (c\<lparr>type := POINT\<rparr>) k
      \<and> calculatePotential p [c] k = calculatePotential p [c\<lparr>type := POINT\<rparr>] k"
    if "radius c \<le> d"
    using that assms
    by (simp add: getFieldFromObject_def calculatePotential_def potentialStep_def
        distanceTo_length_v Let_def)
  have outside: "getFieldFromObject p c k = multiplyScalar (divideScalar rVec d) (k * q c / d\<^sup>2)
      \<and> length_v (getFieldFromObject p c k) = \<bar>k * q c\<bar> / d\<^sup>2
      \<and> calculatePotential p [c] k = k * q c / d" if "0.05 \<le> d" "radius c \<le> d"
  proof -
    from that have "d \<noteq> 0" by simp
    then show ?thesis
      using that assms field_point_law [of d rVec "k * q c / (d * d)"]
      by (simp add: getFieldFromObject_def calculatePotential_def potentialStep_def
          distanceTo_length_v Let_def power2_eq_square)
  qed
  have boundary: "getFieldFromObject p c k
        = multiplyScalar (divideScalar rVec d) (k * q c * d / (radius c)^3)"
    if "0.05 \<le> d" "d = radius c"
  proof -
    from that have "d \<noteq> 0" by simp
    then have "k * q c / d\<^sup>2 = k * q c * d / (radius c)^3"
      using that by (simp add: power2_eq_square power3_eq_cube)
    moreover from that have "radius c \<le> d" by simp
    from outside [OF that(1) this]
    have "getFieldFromObject p c k = multiplyScalar (divideScalar rVec d) (k * q c / d\<^sup>2)"
      by blast
    ultimately show ?thesis by simp
  qed
  have half: "length_v (getFieldFromObject p c k) = 2.5"
    if "q c = 5" "radius c = 1" "k = 1" "d = 0.5"
  proof -
    from that have "0.05 \<le> d" "d < radius c" by simp_all
    from inside [OF this]
    have "length_v (getFieldFromObject p c k) = \<bar>k * q c\<bar> * d / (radius c)^3" by blast
    then show ?thesis using that by simp
  qed
  have one: "length_v (getFieldFromObject p c k) = 5"
    if "q c = 5" "radius c = 1" "k = 1" "d = 1"
  proof -
    from that have "0.05 \<le> d" "radius c \<le> d" by simp_all
    from outside [OF this]
    have "length_v (getFieldFromObject p c k) = \<bar>k * q c\<bar> / d\<^sup>2" by blast
    then show ?thesis using that by simp
  qed
  have cont: "isCont (\<lambda>t. x_v (getFieldFromObject (add_v (position c) (multiplyScalar u t)) c k))
              (radius c)
      \<and> isCont (\<lambda>t. y_v (getFieldFromObject (add_v (position c) (multiplyScalar u t)) c k))
              (radius c)
      \<and> isCont (\<lambda>t. z_v (getFieldFromObject (add_v (position c) (multiplyScalar u t)) c k))
              (radius c)"
    if "0.05 < radius c" "length_v u = 1"
    using radial_field_cont [OF assms(1) that(2,1), of x_v k]
      radial_field_cont [OF assms(1) that(2,1), of y_v k]
      radial_field_cont [OF assms(1) that(2,1), of z_v k]
    by simp
  show ?thesis
    using inside same outside boundary cont half one by blast
qed

theorem non_conducting_sphere_law_witness:
  "type (sphere_example\<lparr>type := SPHERE_NON_CONDUCTING\<rparr>) = SPHERE_NON_CONDUCTING
   \<and> length_v (subVectors (Vector3 0 (1 / 2) 0) (position sphere_example)) = 1 / 2
   \<and> getFieldFromObject (Vector3 0 (1 / 2) 0) (sphere_example\<lparr>type := SPHERE_NON_CONDUCTING\<rparr>) 1
       = Vector3 0 (5 / 2) 0
   \<and> calculatePotential (Vector3 0 (1 / 2) 0) [sphere_example\<lparr>type := SPHERE_NON_CONDUCTING\<rparr>] 1
       = 55 / 8
   \<and> length_v (subVectors (Vector3 1 0 0) (position sphere_example)) = 1
   \<and> getFieldFromObject (Vector3 1 0 0) (sphere_example\<lparr>type := SPHERE_NON_CONDUCTING\<rparr>) 1
       = Vector3 5 0 0"
proof -
  let ?c = "sphere_example\<lparr>type := SPHERE_NON_CONDUCTING\<rparr>"
  have a: "subVectors (Vector3 1 0 0) (position ?c) = Vector3 1 0 0"
    and b: "subVectors (Vector3 0 (1 / 2) 0) (position ?c) = Vector3 0 (1 / 2) 0"
    by (simp_all add: sphere_example_def subVectors_def)
  have t: "type ?c = SPHERE_NON_CONDUCTING" "q ?c = 5" "radius ?c = 1"
    "position ?c = position sphere_example"
    by (simp_all add: sphere_example_def)
  have la: "(1::real) = length_v (Vector3 1 0 0)"
    and lb: "(1 / 2 ::real) = length_v (Vector3 0 (1 / 2) 0)"
    by (simp_all add: length_v_axis_x length_v_axis_y)
  have r1: "getFieldFromObject (Vector3 1 0 0) ?c 1
        = multiplyScalar (divideScalar (Vector3 1 0 0) 1) (5 / 1\<^sup>2)"
    using non_conducting_sphere_law [OF t(1) a [symmetric] la, of 1,
        THEN conjunct2, THEN conjunct2, THEN conjunct1]
    by (simp add: t)
  have r2: "getFieldFromObject (Vector3 0 (1 / 2) 0) ?c 1
        = multiplyScalar (divideScalar (Vector3 0 (1 / 2) 0) (1 / 2)) (5 * (1 / 2) / 1^3)
      \<and> calculatePotential (Vector3 0 (1 / 2) 0) [?c] 1
        = (5 / (2 * 1)) * (3 - (1 / 2)\<^sup>2 / 1\<^sup>2)"
    using non_conducting_sphere_law [OF t(1) b [symmetric] lb, of 1, THEN conjunct1]
    by (simp add: t)
  show ?thesis
    using r1 r2 a b
    by (simp add: t length_v_axis_x length_v_axis_y multiplyScalar_def divideScalar_def
        power2_eq_square)
qed

section \<open>Superposition\<close>

lemma calculateElectricField_vector:
  "vector (calculateElectricField p charges k) = (\<Sum>c\<leftarrow>charges. getFieldFromObject p c k)"
proof -
  have "fold (\<lambda>charge totalE. add_v totalE (getFieldFromObject p charge k)) charges 0
      = 0 + (\<Sum>c\<leftarrow>charges. getFieldFromObject p c k)"
    by (rule fold_list_sum) (rule add_v_plus)
  then have "fold (\<lambda>charge totalE. add_v totalE (getFieldFromObject p charge k)) charges
        (Vector3 0 0 0) = (\<Sum>c\<leftarrow>charges. getFieldFromObject p c k)"
    by (simp add: zero_Vector3_def [symmetric])
  then show ?thesis
    by (simp add: calculateElectricField_def Let_def)
qed

lemma calculateElectricField_magnitude:
  "magnitude (calculateElectricField p charges k)
     = length_v (vector (calculateElectricField p charges k))"
  by (simp add: calculateElectricField_def Let_def)

lemma calculatePotential_sum:
  "calculatePotential p charges k = (\<Sum>c\<leftarrow>charges. calculatePotential p [c] k)"
proof -
  have "fold (potentialStep p k) charges 0 = 0 + (\<Sum>c\<leftarrow>charges. potentialStep p k c 0)"
    by (rule fold_list_sum) (rule potentialStep_plus)
  then show ?thesis
    by (simp add: calculatePotential_def)
qed

text \<open>
  Claim C5. The vector returned by \<^verbatim>\<open>calculateElectricField\<close> is the sum, over the whole
  list of sources, of the field of each source computed on its own by
  \<^verbatim>\<open>getFieldFromObject\<close>; the magnitude returned is the Euclidean norm of that sum; and
  \<^verbatim>\<open>calculatePotential\<close> returns the sum of the potentials of the sources, each computed on
  its own. Every element of the list is a term of the sums. The potential of one source
  is what the callback of the loop adds to the running total, which does not depend on
  that total, and it is given by the law of its type: \<open>0\<close> nearer than \<open>0.05\<close>, else
  \<open>k q / d\<close> for a point and outside a sphere, \<open>k q / R\<close> inside a conducting sphere,
  \<open>(k q / 2R) (3 - d\<^sup>2 / R\<^sup>2)\<close> inside a uniformly charged one, and for a ring the sum over
  its 30 samples farther than \<open>0.05\<close> of \<open>k (q / 30) / d\<^sub>i\<close>.
\<close>

theorem superposition:
  "vector (calculateElectricField p charges k) = (\<Sum>c\<leftarrow>charges. getFieldFromObject p c k)
   \<and> vector (calculateElectricField p charges k)
       = (\<Sum>c\<leftarrow>charges. vector (calculateElectricField p [c] k))
   \<and> magnitude (calculateElectricField p charges k)
       = sqrt ((x_v (\<Sum>c\<leftarrow>charges. getFieldFromObject p c k))\<^sup>2
             + (y_v (\<Sum>c\<leftarrow>charges. getFieldFromObject p c k))\<^sup>2
             + (z_v (\<Sum>c\<leftarrow>charges. getFieldFromObject p c k))\<^sup>2)
   \<and> calculatePotential p charges k = (\<Sum>c\<leftarrow>charges. calculatePotential p [c] k)
   \<and> calculatePotential p charges k = (\<Sum>c\<leftarrow>charges. potentialStep p k c 0)
   \<and> calculatePotential p [s] k = potentialStep p k s 0
   \<and> potentialStep p k s pot = pot + potentialStep p k s 0
   \<and> potentialStep p k s 0 =
        (if distanceTo p (position s) < 0.05 then 0
         else (case type s of
            POINT \<Rightarrow> k * q s / distanceTo p (position s)
          | SPHERE_CONDUCTING \<Rightarrow>
              (if radius s \<le> distanceTo p (position s)
               then k * q s / distanceTo p (position s)
               else k * q s / radius s)
          | SPHERE_NON_CONDUCTING \<Rightarrow>
              (if radius s \<le> distanceTo p (position s)
               then k * q s / distanceTo p (position s)
               else (k * q s / (2 * radius s))
                    * (3 - (distanceTo p (position s) * distanceTo p (position s))
                           / (radius s * radius s)))
          | RING \<Rightarrow>
              (\<Sum>i<30. if 0.05 < distanceTo p (samplePos s 30 i)
                         then k * (q s / 30) / distanceTo p (samplePos s 30 i) else 0)))"
proof -
  have f: "vector (calculateElectricField p [c] k) = getFieldFromObject p c k" for c
    by (simp add: calculateElectricField_vector)
  have field: "vector (calculateElectricField p charges k)
        = (\<Sum>c\<leftarrow>charges. getFieldFromObject p c k)
      \<and> vector (calculateElectricField p charges k)
        = (\<Sum>c\<leftarrow>charges. vector (calculateElectricField p [c] k))
      \<and> magnitude (calculateElectricField p charges k)
        = sqrt ((x_v (\<Sum>c\<leftarrow>charges. getFieldFromObject p c k))\<^sup>2
             + (y_v (\<Sum>c\<leftarrow>charges. getFieldFromObject p c k))\<^sup>2
             + (z_v (\<Sum>c\<leftarrow>charges. getFieldFromObject p c k))\<^sup>2)"
    by (simp add: f calculateElectricField_magnitude calculateElectricField_vector
        length_v_def power2_eq_square)
  have single: "calculatePotential p [c] k = potentialStep p k c 0" for c
    by (simp add: calculatePotential_def)
  have steps: "calculatePotential p charges k = (\<Sum>c\<leftarrow>charges. potentialStep p k c 0)"
    using calculatePotential_sum [of p charges k] by (simp only: single)
  have law: "potentialStep p k s 0 =
        (if distanceTo p (position s) < 0.05 then 0
         else (case type s of
            POINT \<Rightarrow> k * q s / distanceTo p (position s)
          | SPHERE_CONDUCTING \<Rightarrow>
              (if radius s \<le> distanceTo p (position s)
               then k * q s / distanceTo p (position s)
               else k * q s / radius s)
          | SPHERE_NON_CONDUCTING \<Rightarrow>
              (if radius s \<le> distanceTo p (position s)
               then k * q s / distanceTo p (position s)
               else (k * q s / (2 * radius s))
                    * (3 - (distanceTo p (position s) * distanceTo p (position s))
                           / (radius s * radius s)))
          | RING \<Rightarrow>
              (\<Sum>i<30. if 0.05 < distanceTo p (samplePos s 30 i)
                         then k * (q s / 30) / distanceTo p (samplePos s 30 i) else 0)))"
    by (simp add: potentialStep_def Let_def ring_potential_fold split: ChargeType.split
        cong: if_cong)
  show ?thesis
    using field calculatePotential_sum [of p charges k] steps single [of s]
      potentialStep_plus [of p k s pot] law
    by blast
qed

section \<open>Net force\<close>

lemma calculateNetForce_filter:
  "calculateNetForce target allCharges k
     = calculateNetForce target (filter (\<lambda>c. id_c c \<noteq> id_c target) allCharges) k"
  by (simp add: calculateNetForce_def)

lemma calculateNetForce_no_others:
  assumes "filter (\<lambda>c. id_c c \<noteq> id_c target) allCharges = []"
  shows "calculateNetForce target allCharges k = \<lparr>vector = Vector3 0 0 0, magnitude = 0\<rparr>"
  using assms by (simp add: calculateNetForce_def)

text \<open>
  Claim C6. \<^verbatim>\<open>calculateNetForce\<close> depends on the list of sources only through the list
  with every entry of the target's id removed: the result is that of the filtered list,
  and putting the target (or any entry with its id) anywhere into the list does not change
  the result, so a source never contributes to its own force. For a point or sphere target
  the force is \<open>q\<close> times the field of the other sources at its position. When the list
  holds no source of another id, the result is the zero vector with magnitude \<open>0\<close>: the
  early return of the source, taken before any field is evaluated or any division made.
\<close>

theorem calculateNetForce_excludes_target:
  "calculateNetForce target allCharges k
     = calculateNetForce target (filter (\<lambda>c. id_c c \<noteq> id_c target) allCharges) k
   \<and> (id_c c = id_c target \<longrightarrow>
        calculateNetForce target (xs @ c # ys) k = calculateNetForce target (xs @ ys) k)
   \<and> calculateNetForce target (xs @ target # ys) k = calculateNetForce target (xs @ ys) k
   \<and> (type target \<noteq> RING \<longrightarrow>
        vector (calculateNetForce target allCharges k)
          = multiplyScalar
              (\<Sum>c\<leftarrow>filter (\<lambda>c. id_c c \<noteq> id_c target) allCharges.
                  getFieldFromObject (position target) c k)
              (q target))
   \<and> ((\<forall>c \<in> set allCharges. id_c c = id_c target) \<longrightarrow>
        calculateNetForce target allCharges k = \<lparr>vector = Vector3 0 0 0, magnitude = 0\<rparr>)
   \<and> calculateNetForce target [] k = \<lparr>vector = Vector3 0 0 0, magnitude = 0\<rparr>
   \<and> calculateNetForce target [target] k = \<lparr>vector = Vector3 0 0 0, magnitude = 0\<rparr>"
proof -
  have ins: "calculateNetForce target (xs @ c # ys) k = calculateNetForce target (xs @ ys) k"
    if "id_c c = id_c target" for c
    using that by (simp add: calculateNetForce_def)
  have centre: "vector (calculateNetForce target allCharges k)
          = multiplyScalar
              (\<Sum>c\<leftarrow>filter (\<lambda>c. id_c c \<noteq> id_c target) allCharges.
                  getFieldFromObject (position target) c k)
              (q target)"
    if "type target \<noteq> RING"
  proof (cases "filter (\<lambda>c. id_c c \<noteq> id_c target) allCharges = []")
    case True
    then show ?thesis
      by (simp add: calculateNetForce_def multiplyScalar_def zero_Vector3_def)
  next
    case False
    with that show ?thesis
      by (cases "type target")
        (simp_all add: calculateNetForce_def Let_def includes_SPHERE_def
          calculateElectricField_vector)
  qed
  have none: "calculateNetForce target allCharges k = \<lparr>vector = Vector3 0 0 0, magnitude = 0\<rparr>"
    if "\<forall>c \<in> set allCharges. id_c c = id_c target"
  proof -
    from that have "filter (\<lambda>c. id_c c \<noteq> id_c target) allCharges = []"
      by (simp add: filter_empty_conv)
    then show ?thesis by (rule calculateNetForce_no_others)
  qed
  show ?thesis
    using calculateNetForce_filter [of target allCharges k] ins centre none
      calculateNetForce_no_others [of target "[]" k]
      calculateNetForce_no_others [of target "[target]" k]
    by simp
qed

theorem calculateNetForce_excludes_target_witness:
  "id_c (free_example None) = id_c (free_example None)
   \<and> calculateNetForce (free_example None) ([fixed_example] @ free_example None # []) 1
       = calculateNetForce (free_example None) ([fixed_example] @ []) 1
   \<and> type (free_example None) \<noteq> RING
   \<and> vector (calculateNetForce (free_example None) [fixed_example, free_example None] 1)
       = multiplyScalar (getFieldFromObject (position (free_example None)) fixed_example 1)
           (q (free_example None))
   \<and> vector (calculateNetForce (free_example None) [fixed_example, free_example None] 1)
       = Vector3 1 0 0
   \<and> id_c (free_example (Some 3)) = id_c (free_example None)
   \<and> calculateNetForce (free_example None) [free_example None, free_example (Some 3)] 1
       = \<lparr>vector = Vector3 0 0 0, magnitude = 0\<rparr>"
proof -
  have a: "calculateNetForce (free_example None) ([fixed_example] @ free_example None # []) 1
       = calculateNetForce (free_example None) ([fixed_example] @ []) 1"
    using calculateNetForce_excludes_target [where target = "free_example None"
        and c = "free_example None" and xs = "[fixed_example]" and ys = "[]"]
    by blast
  have t: "type (free_example None) \<noteq> RING" "id_c (free_example m) = ''c2''"
    "id_c fixed_example = ''c1''" for m
    by (simp_all add: free_example_def fixed_example_def)
  have "vector (calculateNetForce (free_example None) [fixed_example, free_example None] 1)
       = multiplyScalar
           (\<Sum>c\<leftarrow>filter (\<lambda>c. id_c c \<noteq> id_c (free_example None))
                  [fixed_example, free_example None].
               getFieldFromObject (position (free_example None)) c 1)
           (q (free_example None))"
    using t(1) calculateNetForce_excludes_target [where target = "free_example None"
        and allCharges = "[fixed_example, free_example None]" and k = 1]
    by blast
  then have b: "vector (calculateNetForce (free_example None) [fixed_example, free_example None] 1)
       = multiplyScalar (getFieldFromObject (position (free_example None)) fixed_example 1)
           (q (free_example None))"
    by (simp add: t)
  have c: "\<forall>c \<in> set [free_example None, free_example (Some 3)]. id_c c = id_c (free_example None)"
    by (simp add: t)
  then have d: "calculateNetForce (free_example None) [free_example None, free_example (Some 3)] 1
       = \<lparr>vector = Vector3 0 0 0, magnitude = 0\<rparr>"
    using calculateNetForce_excludes_target [where target = "free_example None"
        and allCharges = "[free_example None, free_example (Some 3)]" and k = 1]
    by blast
  have e: "vector (calculateNetForce (free_example None) [fixed_example, free_example None] 1)
       = Vector3 1 0 0"
    by (rule free_example_force)
  have f: "id_c (free_example (Some 3)) = id_c (free_example None)"
    by (simp add: t)
  show ?thesis
    using a b d e f t(1) by blast
qed

section \<open>The integrator\<close>

lemma divideScalar_components:
  "divideScalar F m = Vector3 (x_v F / m) (y_v F / m) (z_v F / m)"
  by (simp add: divideScalar_def multiplyScalar_def)

lemma length_updateChargeDynamics:
  "length (updateChargeDynamics charges dt k damping_opt) = length charges"
  by (simp add: updateChargeDynamics_def Let_def)

lemma updateChargeDynamics_nth:
  assumes "i < length charges"
  shows "updateChargeDynamics charges dt k damping_opt ! i =
     integrate (map (\<lambda>charge. if truthy (isFixed charge) then Vector3 0 0 0
                             else vector (calculateNetForce charge charges k)) charges)
       dt (case damping_opt of None \<Rightarrow> 0.98 | Some d \<Rightarrow> d) (charges ! i, i)"
  using assms by (simp add: updateChargeDynamics_def Let_def)

lemma updateChargeDynamics_fixed:
  assumes "i < length charges" and "truthy (isFixed (charges ! i))"
  shows "updateChargeDynamics charges dt k damping_opt ! i = charges ! i"
  using assms by (simp add: updateChargeDynamics_nth integrate_def Let_def)

lemma updateChargeDynamics_free:
  assumes "i < length charges" and "\<not> truthy (isFixed (charges ! i))"
  shows "updateChargeDynamics charges dt k damping_opt ! i =
     (let c = charges ! i;
          F = vector (calculateNetForce c charges k);
          m = (case mass c of None \<Rightarrow> 1 | Some m \<Rightarrow> if m = 0 then 1 else m);
          v = (case velocity c of None \<Rightarrow> Vector3 0 0 0 | Some v \<Rightarrow> v);
          damping = (case damping_opt of None \<Rightarrow> 0.98 | Some d \<Rightarrow> d);
          v' = multiplyScalar (add_v v (multiplyScalar (divideScalar F m) dt)) damping
      in c\<lparr>velocity := Some v', position := add_v (position c) (multiplyScalar v' dt)\<rparr>)"
  using assms by (simp add: updateChargeDynamics_nth integrate_def Let_def)

lemma updateChargeDynamics_ids:
  "map id_c (updateChargeDynamics charges dt k damping_opt) = map id_c charges"
proof (rule nth_equalityI)
  show "length (map id_c (updateChargeDynamics charges dt k damping_opt))
      = length (map id_c charges)"
    by (simp add: length_updateChargeDynamics)
next
  fix i
  assume "i < length (map id_c (updateChargeDynamics charges dt k damping_opt))"
  then have i: "i < length charges"
    by (simp add: length_updateChargeDynamics)
  show "map id_c (updateChargeDynamics charges dt k damping_opt) ! i = map id_c charges ! i"
  proof (cases "truthy (isFixed (charges ! i))")
    case True
    with i show ?thesis
      by (simp add: length_updateChargeDynamics updateChargeDynamics_fixed)
  next
    case False
    with i show ?thesis
      by (simp add: length_updateChargeDynamics updateChargeDynamics_free Let_def)
  qed
qed

text \<open>
  Claim C2. One call of \<^verbatim>\<open>updateChargeDynamics\<close> returns a list of the length of its input
  with the same ids in the same order. The entry of a source that is not fixed is the input
  source with two fields replaced: the velocity \<open>v' = (v + (F / m) dt) damping\<close> and the
  position \<open>position + v' dt\<close>, where \<open>F\<close> is the net force on the source computed from the
  input list, \<open>m\<close> is its mass (\<open>1\<close> when absent, and also when the mass is \<open>0\<close>, so every
  source that is not fixed is covered), \<open>v\<close> its velocity (zero when absent) and
  \<open>damping\<close> is \<open>0.98\<close> when omitted. The entry of a fixed source is the input source.
\<close>

theorem updateChargeDynamics_step:
  "length (updateChargeDynamics charges dt k damping_opt) = length charges
   \<and> map id_c (updateChargeDynamics charges dt k damping_opt) = map id_c charges
   \<and> (i < length charges \<and> truthy (isFixed (charges ! i)) \<longrightarrow>
        updateChargeDynamics charges dt k damping_opt ! i = charges ! i)
   \<and> (i < length charges \<and> \<not> truthy (isFixed (charges ! i))
        \<and> F = vector (calculateNetForce (charges ! i) charges k)
        \<and> (mass (charges ! i) = None \<and> m = 1 \<or> mass (charges ! i) = Some 0 \<and> m = 1
             \<or> mass (charges ! i) = Some m \<and> m \<noteq> 0)
        \<and> (velocity (charges ! i) = None \<and> v = Vector3 0 0 0 \<or> velocity (charges ! i) = Some v)
        \<and> (damping_opt = None \<and> damping = 0.98 \<or> damping_opt = Some damping)
        \<and> v' = multiplyScalar (add_v v (multiplyScalar (divideScalar F m) dt)) damping
      \<longrightarrow>
        updateChargeDynamics charges dt k damping_opt ! i
          = (charges ! i)\<lparr>velocity := Some v',
                           position := add_v (position (charges ! i)) (multiplyScalar v' dt)\<rparr>
      \<and> v' = Vector3 ((x_v v + x_v F / m * dt) * damping)
                     ((y_v v + y_v F / m * dt) * damping)
                     ((z_v v + z_v F / m * dt) * damping)
      \<and> position (updateChargeDynamics charges dt k damping_opt ! i)
          = Vector3 (x_v (position (charges ! i)) + x_v v' * dt)
                    (y_v (position (charges ! i)) + y_v v' * dt)
                    (z_v (position (charges ! i)) + z_v v' * dt))"
proof -
  have free: "updateChargeDynamics charges dt k damping_opt ! i
          = (charges ! i)\<lparr>velocity := Some v',
                           position := add_v (position (charges ! i)) (multiplyScalar v' dt)\<rparr>
      \<and> v' = Vector3 ((x_v v + x_v F / m * dt) * damping)
                     ((y_v v + y_v F / m * dt) * damping)
                     ((z_v v + z_v F / m * dt) * damping)
      \<and> position (updateChargeDynamics charges dt k damping_opt ! i)
          = Vector3 (x_v (position (charges ! i)) + x_v v' * dt)
                    (y_v (position (charges ! i)) + y_v v' * dt)
                    (z_v (position (charges ! i)) + z_v v' * dt)"
    if "i < length charges" "\<not> truthy (isFixed (charges ! i))"
      "F = vector (calculateNetForce (charges ! i) charges k)"
      "mass (charges ! i) = None \<and> m = 1 \<or> mass (charges ! i) = Some 0 \<and> m = 1
         \<or> mass (charges ! i) = Some m \<and> m \<noteq> 0"
      "velocity (charges ! i) = None \<and> v = Vector3 0 0 0 \<or> velocity (charges ! i) = Some v"
      "damping_opt = None \<and> damping = 0.98 \<or> damping_opt = Some damping"
      "v' = multiplyScalar (add_v v (multiplyScalar (divideScalar F m) dt)) damping"
  proof -
    have m: "(case mass (charges ! i) of None \<Rightarrow> 1 | Some m \<Rightarrow> if m = 0 then 1 else m) = m"
      using that(4) by auto
    have v: "(case velocity (charges ! i) of None \<Rightarrow> Vector3 0 0 0 | Some v \<Rightarrow> v) = v"
      using that(5) by auto
    have d: "(case damping_opt of None \<Rightarrow> 0.98 | Some d \<Rightarrow> d) = damping"
      using that(6) by auto
    have r: "updateChargeDynamics charges dt k damping_opt ! i
          = (charges ! i)\<lparr>velocity := Some v',
                           position := add_v (position (charges ! i)) (multiplyScalar v' dt)\<rparr>"
      unfolding updateChargeDynamics_free [OF that(1,2)] Let_def m v d that(3,7) ..
    have c: "v' = Vector3 ((x_v v + x_v F / m * dt) * damping)
                     ((y_v v + y_v F / m * dt) * damping)
                     ((z_v v + z_v F / m * dt) * damping)"
      unfolding that(7) by (simp add: multiplyScalar_def add_v_def divideScalar_components)
    have "position (updateChargeDynamics charges dt k damping_opt ! i)
          = Vector3 (x_v (position (charges ! i)) + x_v v' * dt)
                    (y_v (position (charges ! i)) + y_v v' * dt)
                    (z_v (position (charges ! i)) + z_v v' * dt)"
      by (simp add: r add_v_def multiplyScalar_def)
    with r c show ?thesis by blast
  qed
  show ?thesis
    using free updateChargeDynamics_fixed [of i charges dt k damping_opt]
      length_updateChargeDynamics [of charges dt k damping_opt]
      updateChargeDynamics_ids [of charges dt k damping_opt]
    by blast
qed

theorem updateChargeDynamics_step_witness:
  "length (updateChargeDynamics [fixed_example, free_example (Some 2)] 1 1 None) = 2
   \<and> (1::nat) < length [fixed_example, free_example (Some 2)]
   \<and> \<not> truthy (isFixed ([fixed_example, free_example (Some 2)] ! 1))
   \<and> mass ([fixed_example, free_example (Some 2)] ! 1) = Some 2
   \<and> velocity ([fixed_example, free_example (Some 2)] ! 1) = None
   \<and> updateChargeDynamics [fixed_example, free_example (Some 2)] 1 1 None ! 1
       = (free_example (Some 2))\<lparr>velocity := Some (Vector3 (49 / 100) 0 0),
                                  position := Vector3 (149 / 100) 0 0\<rparr>
   \<and> mass ([fixed_example, free_example (Some 0)] ! 1) = Some 0
   \<and> updateChargeDynamics [fixed_example, free_example (Some 0)] 1 1 None ! 1
       = (free_example (Some 0))\<lparr>velocity := Some (Vector3 (49 / 50) 0 0),
                                  position := Vector3 (99 / 50) 0 0\<rparr>
   \<and> mass ([fixed_example, free_example None] ! 1) = None
   \<and> updateChargeDynamics [fixed_example, free_example None] 1 1 None ! 1
       = (free_example None)\<lparr>velocity := Some (Vector3 (49 / 50) 0 0),
                               position := Vector3 (99 / 50) 0 0\<rparr>"
proof -
  have gen: "updateChargeDynamics [fixed_example, free_example mo] 1 1 None ! 1
       = ([fixed_example, free_example mo] ! 1)\<lparr>velocity := Some w,
            position := add_v (position ([fixed_example, free_example mo] ! 1))
                          (multiplyScalar w 1)\<rparr>"
    if "mo = None \<and> m = 1 \<or> mo = Some 0 \<and> m = 1 \<or> mo = Some m \<and> m \<noteq> 0"
      and "w = multiplyScalar (add_v (Vector3 0 0 0)
              (multiplyScalar (divideScalar (Vector3 1 0 0) m) 1)) 0.98"
    for mo m w
  proof -
    have mv: "mass ([fixed_example, free_example mo] ! 1) = mo"
      "velocity ([fixed_example, free_example mo] ! 1) = None"
      by (simp_all add: free_example_def)
    have h: "(1::nat) < length [fixed_example, free_example mo]
        \<and> \<not> truthy (isFixed ([fixed_example, free_example mo] ! 1))
        \<and> Vector3 1 0 0 = vector (calculateNetForce ([fixed_example, free_example mo] ! 1)
              [fixed_example, free_example mo] 1)
        \<and> (mass ([fixed_example, free_example mo] ! 1) = None \<and> m = 1
            \<or> mass ([fixed_example, free_example mo] ! 1) = Some 0 \<and> m = 1
            \<or> mass ([fixed_example, free_example mo] ! 1) = Some m \<and> m \<noteq> 0)
        \<and> (velocity ([fixed_example, free_example mo] ! 1) = None
              \<and> Vector3 0 0 0 = Vector3 0 0 0
            \<or> velocity ([fixed_example, free_example mo] ! 1) = Some (Vector3 0 0 0))
        \<and> ((None :: real option) = None \<and> (0.98::real) = 0.98 \<or> None = Some (0.98::real))
        \<and> w = multiplyScalar (add_v (Vector3 0 0 0)
              (multiplyScalar (divideScalar (Vector3 1 0 0) m) 1)) 0.98"
      unfolding mv using that by (simp add: examples_fixed free_example_force)
    show ?thesis
      using h updateChargeDynamics_step [where charges = "[fixed_example, free_example mo]"
          and dt = 1 and k = 1 and damping_opt = None and i = 1 and F = "Vector3 1 0 0"
          and m = m and v = "Vector3 0 0 0" and damping = "0.98" and v' = w]
      by blast
  qed
  have a: "updateChargeDynamics [fixed_example, free_example (Some 2)] 1 1 None ! 1
       = (free_example (Some 2))\<lparr>velocity := Some (Vector3 (49 / 100) 0 0),
                                  position := Vector3 (149 / 100) 0 0\<rparr>"
    using gen [of "Some 2" 2 "Vector3 (49 / 100) 0 0"]
    by (simp add: multiplyScalar_def add_v_def divideScalar_def) (simp add: free_example_def)
  have b: "updateChargeDynamics [fixed_example, free_example (Some 0)] 1 1 None ! 1
       = (free_example (Some 0))\<lparr>velocity := Some (Vector3 (49 / 50) 0 0),
                                  position := Vector3 (99 / 50) 0 0\<rparr>"
    using gen [of "Some 0" 1 "Vector3 (49 / 50) 0 0"]
    by (simp add: multiplyScalar_def add_v_def divideScalar_def) (simp add: free_example_def)
  have c: "updateChargeDynamics [fixed_example, free_example None] 1 1 None ! 1
       = (free_example None)\<lparr>velocity := Some (Vector3 (49 / 50) 0 0),
                               position := Vector3 (99 / 50) 0 0\<rparr>"
    using gen [of None 1 "Vector3 (49 / 50) 0 0"]
    by (simp add: multiplyScalar_def add_v_def divideScalar_def) (simp add: free_example_def)
  have l: "length (updateChargeDynamics [fixed_example, free_example (Some 2)] 1 1 None) = 2"
    using updateChargeDynamics_step [where charges = "[fixed_example, free_example (Some 2)]"
        and dt = 1 and k = 1 and damping_opt = None, THEN conjunct1]
    by simp
  have o: "(1::nat) < length [fixed_example, free_example (Some 2)]"
    "\<not> truthy (isFixed ([fixed_example, free_example (Some 2)] ! 1))"
    "mass ([fixed_example, free_example mo] ! 1) = mo"
    "velocity ([fixed_example, free_example (Some 2)] ! 1) = None" for mo
    by (simp_all add: examples_fixed) (simp_all add: free_example_def)
  show ?thesis
    using a b c l o by blast
qed

text \<open>
  Claim C10. For a source that is not fixed, the mass that divides the force is never
  \<open>0\<close>: it is \<open>1\<close> when \<^verbatim>\<open>mass\<close> is absent or \<open>0\<close>, and the value of \<^verbatim>\<open>mass\<close>
  otherwise, a negative value included. The new velocity is computed with that divisor.
\<close>

theorem mass_default:
  "i < length charges \<and> \<not> truthy (isFixed (charges ! i))
     \<and> F = vector (calculateNetForce (charges ! i) charges k)
     \<and> (velocity (charges ! i) = None \<and> v = Vector3 0 0 0 \<or> velocity (charges ! i) = Some v)
     \<and> (damping_opt = None \<and> damping = 0.98 \<or> damping_opt = Some damping)
   \<longrightarrow>
     (\<exists>m'. m' \<noteq> 0
        \<and> (mass (charges ! i) = None \<or> mass (charges ! i) = Some 0 \<longrightarrow> m' = 1)
        \<and> (\<forall>m. mass (charges ! i) = Some m \<and> m \<noteq> 0 \<longrightarrow> m' = m)
        \<and> velocity (updateChargeDynamics charges dt k damping_opt ! i)
            = Some (multiplyScalar (add_v v (multiplyScalar (divideScalar F m') dt)) damping)
        \<and> divideScalar F m' = Vector3 (x_v F / m') (y_v F / m') (z_v F / m'))"
proof (intro impI, elim conjE)
  assume i: "i < length charges" "\<not> truthy (isFixed (charges ! i))"
    and F: "F = vector (calculateNetForce (charges ! i) charges k)"
    and v0: "velocity (charges ! i) = None \<and> v = Vector3 0 0 0 \<or> velocity (charges ! i) = Some v"
    and d0: "damping_opt = None \<and> damping = 0.98 \<or> damping_opt = Some damping"
  let ?m = "case mass (charges ! i) of None \<Rightarrow> 1 | Some m \<Rightarrow> if m = 0 then 1 else m"
  have v: "(case velocity (charges ! i) of None \<Rightarrow> Vector3 0 0 0 | Some v \<Rightarrow> v) = v"
    using v0 by auto
  have d: "(case damping_opt of None \<Rightarrow> 0.98 | Some d \<Rightarrow> d) = damping"
    using d0 by auto
  have "velocity (updateChargeDynamics charges dt k damping_opt ! i)
      = Some (multiplyScalar (add_v v (multiplyScalar (divideScalar F ?m) dt)) damping)"
    unfolding updateChargeDynamics_free [OF i] Let_def v d F by simp
  moreover have "?m \<noteq> 0"
    by (simp split: option.split)
  moreover have "mass (charges ! i) = None \<or> mass (charges ! i) = Some 0 \<longrightarrow> ?m = 1"
    by auto
  moreover have "\<forall>m. mass (charges ! i) = Some m \<and> m \<noteq> 0 \<longrightarrow> ?m = m"
    by auto
  ultimately show "\<exists>m'. m' \<noteq> 0
        \<and> (mass (charges ! i) = None \<or> mass (charges ! i) = Some 0 \<longrightarrow> m' = 1)
        \<and> (\<forall>m. mass (charges ! i) = Some m \<and> m \<noteq> 0 \<longrightarrow> m' = m)
        \<and> velocity (updateChargeDynamics charges dt k damping_opt ! i)
            = Some (multiplyScalar (add_v v (multiplyScalar (divideScalar F m') dt)) damping)
        \<and> divideScalar F m' = Vector3 (x_v F / m') (y_v F / m') (z_v F / m')"
    using divideScalar_components [of F ?m] by blast
qed

theorem mass_default_witness:
  "(1::nat) < length [fixed_example, free_example (Some 0)]
   \<and> \<not> truthy (isFixed ([fixed_example, free_example (Some 0)] ! 1))
   \<and> mass ([fixed_example, free_example (Some 0)] ! 1) = Some 0
   \<and> velocity (updateChargeDynamics [fixed_example, free_example (Some 0)] 1 1 None ! 1)
       = Some (Vector3 (49 / 50) 0 0)
   \<and> mass ([fixed_example, free_example (Some (- 2))] ! 1) = Some (- 2)
   \<and> velocity (updateChargeDynamics [fixed_example, free_example (Some (- 2))] 1 1 None ! 1)
       = Some (Vector3 (- 49 / 100) 0 0)"
proof -
  have h: "(1::nat) < length [fixed_example, free_example mo]
      \<and> \<not> truthy (isFixed ([fixed_example, free_example mo] ! 1))
      \<and> Vector3 1 0 0 = vector (calculateNetForce ([fixed_example, free_example mo] ! 1)
            [fixed_example, free_example mo] 1)
      \<and> (velocity ([fixed_example, free_example mo] ! 1) = None
            \<and> Vector3 0 0 0 = Vector3 0 0 0
          \<or> velocity ([fixed_example, free_example mo] ! 1) = Some (Vector3 0 0 0))
      \<and> ((None :: real option) = None \<and> (0.98::real) = 0.98 \<or> None = Some (0.98::real))" for mo
    by (simp add: examples_fixed free_example_force) (simp add: free_example_def)
  have m: "mass ([fixed_example, free_example mo] ! 1) = mo" for mo
    by (simp add: free_example_def)
  from h [of "Some 0"] mass_default [where charges = "[fixed_example, free_example (Some 0)]"
      and dt = 1 and k = 1 and damping_opt = None and i = 1 and F = "Vector3 1 0 0"
      and v = "Vector3 0 0 0" and damping = "0.98"]
  obtain m' where "m' = 1"
    and "velocity (updateChargeDynamics [fixed_example, free_example (Some 0)] 1 1 None ! 1)
       = Some (multiplyScalar (add_v (Vector3 0 0 0)
            (multiplyScalar (divideScalar (Vector3 1 0 0) m') 1)) 0.98)"
    unfolding m by blast
  then have a: "velocity (updateChargeDynamics [fixed_example, free_example (Some 0)] 1 1 None ! 1)
       = Some (Vector3 (49 / 50) 0 0)"
    by (simp add: multiplyScalar_def add_v_def divideScalar_def)
  from h [of "Some (- 2)"] mass_default [where charges = "[fixed_example, free_example (Some (- 2))]"
      and dt = 1 and k = 1 and damping_opt = None and i = 1 and F = "Vector3 1 0 0"
      and v = "Vector3 0 0 0" and damping = "0.98"]
  obtain m' where "m' = - 2"
    and "velocity (updateChargeDynamics [fixed_example, free_example (Some (- 2))] 1 1 None ! 1)
       = Some (multiplyScalar (add_v (Vector3 0 0 0)
            (multiplyScalar (divideScalar (Vector3 1 0 0) m') 1)) 0.98)"
    unfolding m by force
  then have b: "velocity (updateChargeDynamics [fixed_example, free_example (Some (- 2))] 1 1 None ! 1)
       = Some (Vector3 (- 49 / 100) 0 0)"
    by (simp add: multiplyScalar_def add_v_def divideScalar_def)
  show ?thesis
    using a b by (simp add: examples_fixed) (simp add: free_example_def)
qed









section \<open>The ring on its axis\<close>

lemma sum_halves:
  fixes f :: "nat \<Rightarrow> real"
  shows "(\<Sum>i<n + n. f i) = (\<Sum>i<n. f i + f (i + n))"
proof -
  have "sum f {..<n + n} = sum f ({..<n} \<union> {n..<n + n})"
    by (simp add: ivl_disj_un)
  also have "\<dots> = sum f {..<n} + sum f {n..<n + n}"
    by (rule sum.union_disjoint) auto
  also have "sum f {n..<n + n} = (\<Sum>i = 0..<n. f (i + n))"
    using sum.shift_bounds_nat_ivl [of f 0 n n] by simp
  finally show ?thesis
    by (simp add: sum.distrib atLeast0LessThan)
qed

lemma sum_antiperiodic_40:
  fixes g :: "real \<Rightarrow> real"
  assumes "\<And>a. g (a + pi) = - g a"
  shows "(\<Sum>i<40. g (real i / 40 * pi * 2)) = 0"
proof -
  let ?F = "\<lambda>i. g (real i / 40 * pi * 2)"
  have "?F i + ?F (i + 20) = 0" for i
  proof -
    have "real (i + 20) / 40 * pi * 2 = real i / 40 * pi * 2 + pi"
      by (simp add: field_simps)
    then have "?F (i + 20) = - ?F i"
      by (simp only: assms)
    then show ?thesis by linarith
  qed
  then have "(\<Sum>i<20. ?F i + ?F (i + 20)) = 0"
    by (simp only: sum.neutral_const)
  moreover have "(\<Sum>i<20 + 20. ?F i) = (\<Sum>i<20. ?F i + ?F (i + 20))"
    by (rule sum_halves)
  moreover have "(20::nat) + 20 = 40"
    by simp
  ultimately show ?thesis
    by (simp only:)
qed

lemma sum_cos_40: "(\<Sum>i<40. cos (real i / 40 * pi * 2)) = 0"
  by (rule sum_antiperiodic_40) (rule cos_periodic_pi)

lemma sum_sin_40: "(\<Sum>i<40. sin (real i / 40 * pi * 2)) = 0"
  by (rule sum_antiperiodic_40) (rule sin_periodic_pi)

lemma circle_norm:
  fixes a b R h :: real
  assumes "a\<^sup>2 + b\<^sup>2 = 1"
  shows "(b * R) * (b * R) + h * h + (a * R) * (a * R) = R\<^sup>2 + h\<^sup>2"
proof -
  have "(b * R) * (b * R) + h * h + (a * R) * (a * R) = (a\<^sup>2 + b\<^sup>2) * R\<^sup>2 + h\<^sup>2"
    by (simp add: power2_eq_square algebra_simps)
  then show ?thesis
    by (simp add: assms)
qed

lemma on_axis_sample:
  assumes "p = Vector3 (x_v (position c)) (y_v (position c) + h) (z_v (position c))"
  shows "subVectors p (samplePos c n i)
       = Vector3 (- (cos (real i / real n * pi * 2) * radius c)) h
                 (- (sin (real i / real n * pi * 2) * radius c))"
    and "length_v (subVectors p (samplePos c n i)) = sqrt ((radius c)\<^sup>2 + h\<^sup>2)"
proof -
  let ?t = "real i / real n * pi * 2"
  show s: "subVectors p (samplePos c n i)
       = Vector3 (- (cos ?t * radius c)) h (- (sin ?t * radius c))"
    by (simp add: assms subVectors_def samplePos_def Let_def)
  have "(cos ?t * radius c) * (cos ?t * radius c) + h * h
        + (sin ?t * radius c) * (sin ?t * radius c) = (radius c)\<^sup>2 + h\<^sup>2"
    by (rule circle_norm) (rule sin_cos_squared_add)
  then show "length_v (subVectors p (samplePos c n i)) = sqrt ((radius c)\<^sup>2 + h\<^sup>2)"
    by (simp add: s length_v_def)
qed

lemma powr_three_halves:
  fixes s :: real
  assumes "0 < s"
  shows "s powr 1.5 = sqrt s * sqrt s * sqrt s"
proof -
  have "s powr 1.5 = s powr (1 + 1 / 2)" by simp
  also have "\<dots> = s powr 1 * s powr (1 / 2)" by (rule powr_add)
  also have "\<dots> = s * sqrt s" using assms by (simp add: powr_half_sqrt)
  finally show ?thesis using assms by simp
qed

lemma forty_samples:
  fixes D :: real
  assumes "D \<noteq> 0"
  shows "40 * (h / D * (k * (Q / 40) / (D * D))) = k * Q * h / (D * D * D)"
  using assms by (simp add: field_simps)

lemma ring_on_axis_field:
  assumes "type c = RING"
    and "p = Vector3 (x_v (position c)) (y_v (position c) + h) (z_v (position c))"
    and "0.05 \<le> \<bar>h\<bar>" and "0.1 < sqrt ((radius c)\<^sup>2 + h\<^sup>2)"
  shows "getFieldFromObject p c k
       = Vector3 0 (k * q c * h / ((radius c)\<^sup>2 + h\<^sup>2) powr 1.5) 0"
proof -
  let ?D = "sqrt ((radius c)\<^sup>2 + h\<^sup>2)"
  let ?B = "k * (q c / 40) / (?D * ?D)"
  let ?t = "\<lambda>i. real i / 40 * pi * 2"
  from assms(4) have D: "0 < ?D" "?D \<noteq> 0" by linarith+
  from D(1) have S: "0 < (radius c)\<^sup>2 + h\<^sup>2" by (simp only: real_sqrt_gt_0_iff)
  have "subVectors p (position c) = Vector3 0 h 0"
    by (simp add: assms(2) subVectors_def)
  then have far: "0.05 \<le> length_v (subVectors p (position c))"
    using assms(3) by (simp add: length_v_axis_y)
  have smp: "(if 0.1 < length_v (subVectors p (samplePos c 40 i))
       then multiplyScalar (normalize_v (subVectors p (samplePos c 40 i)))
              ((k * (q c / 40)) / (length_v (subVectors p (samplePos c 40 i))
                                  * length_v (subVectors p (samplePos c 40 i))))
       else 0)
      = Vector3 (cos (?t i) * (- (radius c / ?D * ?B))) (h / ?D * ?B)
                (sin (?t i) * (- (radius c / ?D * ?B)))" for i
    using assms(4) D on_axis_sample [OF assms(2), of 40 i]
    by (simp add: normalize_v_def divideScalar_def multiplyScalar_def)
  have field: "getFieldFromObject p c k
      = (\<Sum>i<40. Vector3 (cos (?t i) * (- (radius c / ?D * ?B))) (h / ?D * ?B)
                (sin (?t i) * (- (radius c / ?D * ?B))))"
    unfolding getFieldFromObject_ring [OF assms(1) far] smp ..
  have x: "x_v (getFieldFromObject p c k) = 0"
    unfolding field x_v_sum
    by (simp only: Vector3.sel sum_distrib_right [symmetric] sum_cos_40 mult_zero_left)
  have z: "z_v (getFieldFromObject p c k) = 0"
    unfolding field z_v_sum
    by (simp only: Vector3.sel sum_distrib_right [symmetric] sum_sin_40 mult_zero_left)
  have "y_v (getFieldFromObject p c k) = 40 * (h / ?D * ?B)"
    unfolding field y_v_sum by simp
  also have "\<dots> = k * q c * h / (?D * ?D * ?D)"
    by (rule forty_samples [OF D(2)])
  also have "\<dots> = k * q c * h / ((radius c)\<^sup>2 + h\<^sup>2) powr 1.5"
    by (simp only: powr_three_halves [OF S])
  finally have y: "y_v (getFieldFromObject p c k)
      = k * q c * h / ((radius c)\<^sup>2 + h\<^sup>2) powr 1.5" .
  show ?thesis
    by (rule Vector3.expand) (simp add: x y z)
qed

text \<open>
  Claim C8. For a source of type \<^verbatim>\<open>RING\<close> with radius \<open>R\<close> and charge \<open>q\<close> and a probe
  point at height \<open>h\<close> on the axis through its centre (the ring lies in the XZ plane, the
  axis is the Y direction), with the guards passed (\<open>\<bar>h\<bar> \<ge> 0.05\<close> for the centre and
  \<open>sqrt (R\<^sup>2 + h\<^sup>2) > 0.1\<close> for the samples, all at that distance), the field computed with
  the 40 samples is the vector \<open>k q h / (R\<^sup>2 + h\<^sup>2) powr 1.5\<close> along the axis: the distance
  to the exact value is \<open>0\<close>, hence within 1 percent of its magnitude.
\<close>

theorem ring_on_axis:
  assumes "type c = RING"
    and "p = Vector3 (x_v (position c)) (y_v (position c) + h) (z_v (position c))"
    and "0.05 \<le> \<bar>h\<bar>" and "0.1 < sqrt ((radius c)\<^sup>2 + h\<^sup>2)"
    and "exact = Vector3 0 (k * q c * h / ((radius c)\<^sup>2 + h\<^sup>2) powr 1.5) 0"
  shows "length_v (subVectors (getFieldFromObject p c k) exact) \<le> 0.01 * length_v exact
       \<and> getFieldFromObject p c k = exact"
proof -
  have e: "getFieldFromObject p c k = exact"
    unfolding assms(5) by (rule ring_on_axis_field [OF assms(1-4)])
  have "length_v (subVectors exact exact) = 0"
    by (simp add: subVectors_def length_v_def)
  then show ?thesis
    using e length_v_nonneg [of exact] by simp
qed

theorem ring_on_axis_witness:
  "type ring_example = RING
   \<and> (0.05::real) \<le> \<bar>1\<bar> \<and> 0.1 < sqrt ((radius ring_example)\<^sup>2 + 1\<^sup>2)
   \<and> getFieldFromObject (Vector3 0 1 0) ring_example 1 = Vector3 0 (40 / 2 powr 1.5) 0"
proof -
  have t: "type ring_example = RING" "radius ring_example = 1" "q ring_example = 40"
    "position ring_example = Vector3 0 0 0"
    by (simp_all add: ring_example_def)
  have p: "Vector3 0 1 0 = Vector3 (x_v (position ring_example)) (y_v (position ring_example) + 1)
      (z_v (position ring_example))"
    by (simp add: t)
  have h: "(0.05::real) \<le> \<bar>1\<bar>" by simp
  have "(0.1::real)\<^sup>2 < (radius ring_example)\<^sup>2 + 1\<^sup>2"
    by (simp add: t power2_eq_square)
  then have d: "0.1 < sqrt ((radius ring_example)\<^sup>2 + 1\<^sup>2)"
    by (rule real_less_rsqrt)
  have "getFieldFromObject (Vector3 0 1 0) ring_example 1
      = Vector3 0 (1 * q ring_example * 1 / ((radius ring_example)\<^sup>2 + 1\<^sup>2) powr 1.5) 0"
    using ring_on_axis [OF t(1) p h d refl, of 1] by blast
  then show ?thesis
    using t(1) h d by (simp add: t)
qed

section \<open>Grid snap\<close>

lemma Math_round_near: "\<bar>Math_round a - a\<bar> \<le> 1 / 2"
  unfolding Math_round_def by linarith

lemma Math_round_nearest: "\<bar>Math_round a - a\<bar> \<le> \<bar>of_int m - a\<bar>"
proof (cases "m \<le> \<lfloor>a + 1 / 2\<rfloor>")
  case True
  show ?thesis
  proof (cases "m = \<lfloor>a + 1 / 2\<rfloor>")
    case True
    then show ?thesis by (simp add: Math_round_def)
  next
    case False
    with \<open>m \<le> \<lfloor>a + 1 / 2\<rfloor>\<close> have "m \<le> \<lfloor>a + 1 / 2\<rfloor> - 1" by simp
    then have "real_of_int m \<le> of_int \<lfloor>a + 1 / 2\<rfloor> - 1" by linarith
    then show ?thesis unfolding Math_round_def by linarith
  qed
next
  case False
  then have "\<lfloor>a + 1 / 2\<rfloor> + 1 \<le> m" by simp
  then have "real_of_int \<lfloor>a + 1 / 2\<rfloor> + 1 \<le> of_int m" by linarith
  then show ?thesis unfolding Math_round_def by linarith
qed

lemma snap_coord:
  fixes a step :: real
  assumes "0 < step"
  shows "\<bar>Math_round (a / step) * step - a\<bar> \<le> step / 2"
    and "\<bar>Math_round (a / step) * step - a\<bar> \<le> \<bar>of_int m * step - a\<bar>"
proof -
  have e: "\<bar>b * step - a\<bar> = \<bar>b - a / step\<bar> * step" for b
  proof -
    have "b * step - a = (b - a / step) * step"
      using assms by (simp add: field_simps)
    then show ?thesis using assms by (simp add: abs_mult)
  qed
  have "\<bar>Math_round (a / step) - a / step\<bar> * step \<le> (1 / 2) * step"
    using Math_round_near [of "a / step"] assms by (intro mult_right_mono) simp_all
  then show "\<bar>Math_round (a / step) * step - a\<bar> \<le> step / 2"
    by (simp add: e)
  have "\<bar>Math_round (a / step) - a / step\<bar> * step \<le> \<bar>of_int m - a / step\<bar> * step"
    using Math_round_nearest [of "a / step" m] assms by (intro mult_right_mono) simp_all
  then show "\<bar>Math_round (a / step) * step - a\<bar> \<le> \<bar>of_int m * step - a\<bar>"
    by (simp add: e)
qed

text \<open>
  Claim C9. For a step \<open>> 0\<close>, \<^verbatim>\<open>snapToGrid\<close> rounds each coordinate on its own to the
  nearest multiple of the step: each coordinate of the result is computed from the same
  coordinate of the input alone, is an integer multiple of the step, lies at most half a
  step from the input coordinate, and no other multiple of the step is nearer.
\<close>

theorem snapToGrid_nearest_multiple:
  assumes "0 < step"
  shows "x_v (snapToGrid p step) = Math_round (x_v p / step) * step
       \<and> y_v (snapToGrid p step) = Math_round (y_v p / step) * step
       \<and> z_v (snapToGrid p step) = Math_round (z_v p / step) * step
       \<and> (\<exists>l m n :: int. snapToGrid p step =
              Vector3 (of_int l * step) (of_int m * step) (of_int n * step))
       \<and> \<bar>x_v (snapToGrid p step) - x_v p\<bar> \<le> step / 2
       \<and> \<bar>y_v (snapToGrid p step) - y_v p\<bar> \<le> step / 2
       \<and> \<bar>z_v (snapToGrid p step) - z_v p\<bar> \<le> step / 2
       \<and> (\<forall>m :: int.
              \<bar>x_v (snapToGrid p step) - x_v p\<bar> \<le> \<bar>of_int m * step - x_v p\<bar>
            \<and> \<bar>y_v (snapToGrid p step) - y_v p\<bar> \<le> \<bar>of_int m * step - y_v p\<bar>
            \<and> \<bar>z_v (snapToGrid p step) - z_v p\<bar> \<le> \<bar>of_int m * step - z_v p\<bar>)"
proof -
  have "\<exists>l m n :: int. snapToGrid p step =
          Vector3 (of_int l * step) (of_int m * step) (of_int n * step)"
    unfolding snapToGrid_def Math_round_def by blast
  then show ?thesis
    using snap_coord(1) [OF assms] snap_coord(2) [OF assms]
    by (simp add: snapToGrid_def)
qed

theorem snapToGrid_nearest_multiple_witness:
  "(0::real) < 1 / 2
   \<and> snapToGrid (Vector3 (6 / 5) (- 1 / 4) (3 / 4)) (1 / 2) = Vector3 1 0 1
   \<and> \<bar>x_v (snapToGrid (Vector3 (6 / 5) (- 1 / 4) (3 / 4)) (1 / 2)) - 6 / 5\<bar> \<le> (1 / 2) / 2"
proof -
  have f: "\<lfloor>29 / 10 :: real\<rfloor> = 2" "\<lfloor>0 :: real\<rfloor> = 0" "\<lfloor>2 :: real\<rfloor> = 2"
    by linarith+
  have "snapToGrid (Vector3 (6 / 5) (- 1 / 4) (3 / 4)) (1 / 2) = Vector3 1 0 1"
    by (simp add: snapToGrid_def Math_round_def f)
  then show ?thesis
    using snapToGrid_nearest_multiple [of "1 / 2" "Vector3 (6 / 5) (- 1 / 4) (3 / 4)"]
    by simp
qed

end
